(* ===== verification/DE_Prelude.thy ===== *)
theory DE_Prelude
  imports Complex_Main "HOL-Library.Multiset"
begin

text \<open>
  Shared vocabulary of the Differential Evolution model: the types that name vectors,
  populations and bounds, the error type that stands for the exceptions of the Julia
  package, the bind of the error monad, the explicit random source that replaces Julia's
  global generator, the element-wise vector arithmetic of the mutation operator, and the
  box predicate of the bound constraints. Indices are 0-based here (Julia counts from 1):
  index \<open>i\<close> of the model is column \<open>i + 1\<close> of the Julia matrix.
\<close>

named_theorems de_run "equations that evaluate the DE operators on a successful run"

type_synonym vec = "real list"
type_synonym population = "vec list"
type_synonym bound = "real \<times> real"

text \<open>The errors the engine raises (spec section 7), plus Julia's dispatch and range errors.\<close>

datatype de_error =
    InvalidConfiguration
  | DimensionMismatch
  | EvaluatorFailure
  | ArgumentError
  | MethodError

type_synonym 'a result = "de_error + 'a"

definition bind_r :: "'a result \<Rightarrow> ('a \<Rightarrow> 'b result) \<Rightarrow> 'b result" where
  "bind_r m f = (case m of Inl e \<Rightarrow> Inl e | Inr x \<Rightarrow> f x)"

text \<open>
  The random source. Julia draws from one global generator; the model threads its state
  \<open>'g\<close> explicitly. \<open>rand_unit\<close> is Julia's \<open>rand()\<close>, a float in [0,1);
  \<open>rand_below n\<close> is \<open>rand(1:n) - 1\<close>, an index in [0,n).
\<close>

record 'g rng =
  rand_unit :: "'g \<Rightarrow> real \<times> 'g"
  rand_below :: "nat \<Rightarrow> 'g \<Rightarrow> nat \<times> 'g"

definition rng_ok :: "'g rng \<Rightarrow> bool" where
  "rng_ok r \<longleftrightarrow> (\<forall>g. 0 \<le> fst (rand_unit r g) \<and> fst (rand_unit r g) < 1)
               \<and> (\<forall>n g. 0 < n \<longrightarrow> fst (rand_below r n g) < n)"

text \<open>A small deterministic generator on \<open>nat\<close> seeds, used by the witnesses.\<close>

definition demo_rng :: "nat rng" where
  "demo_rng = \<lparr>rand_unit = (\<lambda>g. (real (g mod 10) / 10, g + 7)),
               rand_below = (\<lambda>n g. (g mod n, g + 3))\<rparr>"

text \<open>Element-wise vector arithmetic (Julia's broadcast \<open>.+\<close>, \<open>.-\<close>, \<open>.*\<close>).\<close>

definition vadd :: "vec \<Rightarrow> vec \<Rightarrow> vec" where
  "vadd x y = map2 (+) x y"

definition vsub :: "vec \<Rightarrow> vec \<Rightarrow> vec" where
  "vsub x y = map2 (-) x y"

definition vscale :: "real \<Rightarrow> vec \<Rightarrow> vec" where
  "vscale c x = map ((*) c) x"

text \<open>
  A bounds matrix (d rows \<open>[l u]\<close>) is a list of pairs; a vector lies in the box when it
  has one gene per row and each gene is within its row.
\<close>

definition within_bounds :: "bound list \<Rightarrow> vec \<Rightarrow> bool" where
  "within_bounds bnds x = list_all2 (\<lambda>b v. fst b \<le> v \<and> v \<le> snd b) bnds x"

definition bounds_ok :: "bound list \<Rightarrow> bool" where
  "bounds_ok bnds = list_all (\<lambda>b. fst b \<le> snd b) bnds"

text \<open>An individual's strength is its fitness times the sense (+1 maximise, -1 minimise).\<close>

definition strength :: "int \<Rightarrow> real \<Rightarrow> real" where
  "strength s f = f * of_int s"

subsection \<open>Generic lemmas\<close>

lemma bind_r_simps [simp]:
  "bind_r (Inl e) f = Inl e"
  "bind_r (Inr x) f = f x"
  by (simp_all add: bind_r_def)

lemma bind_r_eq_Inr [simp]:
  "bind_r m f = Inr y \<longleftrightarrow> (\<exists>x. m = Inr x \<and> f x = Inr y)"
  by (cases m) auto

lemma bind_r_eq_Inl:
  "bind_r m f = Inl e \<longleftrightarrow> m = Inl e \<or> (\<exists>x. m = Inr x \<and> f x = Inl e)"
  by (cases m) auto

lemma rng_okD:
  assumes "rng_ok r"
  shows rng_ok_unit_ge: "0 \<le> fst (rand_unit r g)"
    and rng_ok_unit_lt: "fst (rand_unit r g) < 1"
    and rng_ok_below: "0 < n \<Longrightarrow> fst (rand_below r n g) < n"
  using assms by (auto simp: rng_ok_def)

lemma rng_ok_demo_rng: "rng_ok demo_rng"
  by (simp add: rng_ok_def demo_rng_def)

lemma length_vadd [simp]: "length (vadd x y) = min (length x) (length y)"
  by (simp add: vadd_def)

lemma length_vsub [simp]: "length (vsub x y) = min (length x) (length y)"
  by (simp add: vsub_def)

lemma length_vscale [simp]: "length (vscale c x) = length x"
  by (simp add: vscale_def)

lemma nth_vadd [simp]: "j < length x \<Longrightarrow> j < length y \<Longrightarrow> vadd x y ! j = x ! j + y ! j"
  by (simp add: vadd_def)

lemma nth_vsub [simp]: "j < length x \<Longrightarrow> j < length y \<Longrightarrow> vsub x y ! j = x ! j - y ! j"
  by (simp add: vsub_def)

lemma nth_vscale [simp]: "j < length x \<Longrightarrow> vscale c x ! j = c * x ! j"
  by (simp add: vscale_def)

lemma within_bounds_Nil [simp]: "within_bounds [] x \<longleftrightarrow> x = []"
  by (simp add: within_bounds_def)

lemma within_bounds_Cons [simp]:
  "within_bounds (b # bs) (v # vs) \<longleftrightarrow> fst b \<le> v \<and> v \<le> snd b \<and> within_bounds bs vs"
  by (simp add: within_bounds_def)

lemma within_bounds_length: "within_bounds bnds x \<Longrightarrow> length x = length bnds"
  by (simp add: within_bounds_def list_all2_lengthD)

lemma within_bounds_nth:
  "within_bounds bnds x \<Longrightarrow> j < length bnds \<Longrightarrow> fst (bnds ! j) \<le> x ! j \<and> x ! j \<le> snd (bnds ! j)"
  by (simp add: within_bounds_def list_all2_conv_all_nth)

lemma within_bounds_iff:
  "within_bounds bnds x \<longleftrightarrow> length x = length bnds \<and>
     (\<forall>j < length bnds. fst (bnds ! j) \<le> x ! j \<and> x ! j \<le> snd (bnds ! j))"
  by (auto simp: within_bounds_def list_all2_conv_all_nth)

lemma bounds_ok_Cons [simp]: "bounds_ok (b # bs) \<longleftrightarrow> fst b \<le> snd b \<and> bounds_ok bs"
  by (simp add: bounds_ok_def)

lemma bounds_ok_Nil [simp]: "bounds_ok []"
  by (simp add: bounds_ok_def)

lemma strength_mono_iff:
  "s \<in> {1, -1} \<Longrightarrow> strength s a \<le> strength s b \<longleftrightarrow> (if s = 1 then a \<le> b else b \<le> a)"
  by (auto simp: strength_def)

lemma list_all_update: "list_all P xs \<Longrightarrow> P x \<Longrightarrow> list_all P (xs[i := x])"
  by (auto simp: list_all_iff dest: set_update_subset_insert[THEN subsetD])

end
