(* ===== verification/DE_Options.thy ===== *)
theory DE_Options
  imports DE_Prelude
begin

text \<open>
  The control parameters of standard DE (\<open>StdOptions\<close> of the package): the scale factor
  \<open>F\<close> and the crossover rate \<open>Cr\<close>, immutable once built. The constructor validates
  them as the spec's section 4.1 requires: \<open>Cr\<close> in [0,1] and \<open>F\<close> positive, otherwise
  \<open>InvalidConfiguration\<close>.
\<close>

record std_options =
  F :: real
  Cr :: real

definition StdOptions :: "real \<Rightarrow> real \<Rightarrow> std_options result" where
  "StdOptions f cr =
     (if cr < 0 \<or> 1 < cr then Inl InvalidConfiguration
      else if f \<le> 0 then Inl InvalidConfiguration
      else Inr \<lparr>F = f, Cr = cr\<rparr>)"

definition options_ok :: "std_options \<Rightarrow> bool" where
  "options_ok opt \<longleftrightarrow> 0 < F opt \<and> 0 \<le> Cr opt \<and> Cr opt \<le> 1"

lemma StdOptions_Inr_iff:
  "StdOptions f cr = Inr opt \<longleftrightarrow> opt = \<lparr>F = f, Cr = cr\<rparr> \<and> 0 < f \<and> 0 \<le> cr \<and> cr \<le> 1"
  by (auto simp: StdOptions_def)

lemma StdOptions_options_ok: "StdOptions f cr = Inr opt \<Longrightarrow> options_ok opt"
  by (auto simp: StdOptions_Inr_iff options_ok_def)

text \<open>
  C18: the options constructor accepts exactly the valid control parameters: it returns an
  options value if and only if that value is valid and holds the given F and Cr unchanged,
  and it fails if and only if the parameters are invalid, with InvalidConfiguration as the
  only error.
\<close>

theorem StdOptions_validates:
  "(StdOptions f cr = Inr opt \<longleftrightarrow> options_ok opt \<and> F opt = f \<and> Cr opt = cr)
   \<and> (StdOptions f cr = Inl e \<longleftrightarrow> e = InvalidConfiguration \<and> \<not> options_ok \<lparr>F = f, Cr = cr\<rparr>)"
  by (auto simp: StdOptions_def options_ok_def)

lemma StdOptions_validates_witness:
  "StdOptions (1/2) (3/2) = Inl InvalidConfiguration
   \<and> StdOptions (1/2) (9/10) = Inr \<lparr>F = 1/2, Cr = 9/10\<rparr>"
  using StdOptions_validates[of "1/2" "3/2" _ InvalidConfiguration]
    StdOptions_validates[of "1/2" "9/10" "\<lparr>F = 1/2, Cr = 9/10\<rparr>"]
  by (simp add: options_ok_def)

end
