(* ===== verification/DE_Model.thy ===== *)
theory DE_Model
  imports DE_Options
begin

text \<open>
  The population/fitness model: the \<open>StdDE\<close> struct with its five fields \<open>pop\<close>,
  \<open>fitness\<close>, \<open>senses\<close>, \<open>bounds\<close>, \<open>options\<close> (a record; the record selectors are the
  package's five accessor methods), the derived queries \<open>nindividuals\<close>, \<open>ndims\<close>,
  \<open>nobjectives\<close>, and the outer constructor \<open>StdDE(n, bounds, opt; senses)\<close>, which samples
  the initial population uniformly in the box and picks the single- or multi-objective
  variant from the shape of \<open>senses\<close>. The Julia matrix \<open>pop\<close> (one column per
  individual) is a list of individuals.
\<close>

text \<open>\<open>ASoV\<close> (a scalar or a vector) and \<open>AVoM\<close> (a vector or a matrix) of the package.\<close>

datatype 'a scalar_or_vec = Scalar 'a | Vector "'a list"

datatype 'a vec_or_mat = AVec "'a list" | AMat "'a list list"

record std_de =
  pop :: population
  fitness :: "real vec_or_mat"
  senses :: "int scalar_or_vec"
  bounds :: "bound list"
  options :: std_options

definition nindividuals :: "std_de \<Rightarrow> nat" where
  "nindividuals de = length (pop de)"

definition ndims :: "std_de \<Rightarrow> nat" where
  "ndims de = length (bounds de)"

definition nobjectives :: "std_de \<Rightarrow> nat" where
  "nobjectives de = (case senses de of Scalar _ \<Rightarrow> 1 | Vector ss \<Rightarrow> length ss)"

definition sense_ok :: "int \<Rightarrow> bool" where
  "sense_ok s \<longleftrightarrow> s = 1 \<or> s = -1"

fun senses_ok :: "int scalar_or_vec \<Rightarrow> bool" where
  "senses_ok (Scalar s) = sense_ok s"
| "senses_ok (Vector ss) = (ss \<noteq> [] \<and> list_all sense_ok ss)"

text \<open>The fitness has one entry (single objective) or one column of m values per individual.\<close>

fun fitness_shape_ok :: "nat \<Rightarrow> int scalar_or_vec \<Rightarrow> real vec_or_mat \<Rightarrow> bool" where
  "fitness_shape_ok n (Scalar _) (AVec fs) = (length fs = n)"
| "fitness_shape_ok n (Vector ss) (AMat fm) = (length fm = n \<and> list_all (\<lambda>c. length c = length ss) fm)"
| "fitness_shape_ok n _ _ = False"

definition std_de_wf :: "std_de \<Rightarrow> bool" where
  "std_de_wf de \<longleftrightarrow> bounds_ok (bounds de) \<and> senses_ok (senses de) \<and> options_ok (options de)
     \<and> fitness_shape_ok (length (pop de)) (senses de) (fitness de)
     \<and> list_all (\<lambda>x. length x = length (bounds de)) (pop de)"

text \<open>The bound-constraint invariant: every individual lies in the box.\<close>

definition pop_in_bounds :: "std_de \<Rightarrow> bool" where
  "pop_in_bounds de = list_all (within_bounds (bounds de)) (pop de)"

subsection \<open>The single-objective variant\<close>

text \<open>
  \<open>StdSoDE\<close> is a \<open>StdDE\<close> with a scalar sense and a fitness vector; these views read
  its sense and its fitness vector.
\<close>

definition is_SoDE :: "std_de \<Rightarrow> bool" where
  "is_SoDE de = (case (senses de, fitness de) of (Scalar _, AVec _) \<Rightarrow> True | _ \<Rightarrow> False)"

definition so_sense :: "std_de \<Rightarrow> int" where
  "so_sense de = (case senses de of Scalar s \<Rightarrow> s | Vector _ \<Rightarrow> 1)"

definition so_fitness :: "std_de \<Rightarrow> real list" where
  "so_fitness de = (case fitness de of AVec fs \<Rightarrow> fs | AMat _ \<Rightarrow> [])"


subsection \<open>Construction\<close>

text \<open>
  \<open>rand(d, n)\<close> scaled into the box, drawn column by column (Julia's column-major order):
  gene \<open>j\<close> is \<open>l_j + u * (h_j - l_j)\<close>.
\<close>

fun init_individual :: "'g rng \<Rightarrow> bound list \<Rightarrow> 'g \<Rightarrow> vec \<times> 'g" where
  "init_individual r [] g = ([], g)"
| "init_individual r (b # bs) g =
     (let (u, g1) = rand_unit r g;
          (xs, g2) = init_individual r bs g1
      in ((fst b + u * (snd b - fst b)) # xs, g2))"

fun init_population :: "'g rng \<Rightarrow> nat \<Rightarrow> bound list \<Rightarrow> 'g \<Rightarrow> population \<times> 'g" where
  "init_population r 0 bnds g = ([], g)"
| "init_population r (Suc k) bnds g =
     (let (x, g1) = init_individual r bnds g;
          (xs, g2) = init_population r k bnds g1
      in (x # xs, g2))"

text \<open>Fitness starts as a sentinel (Julia leaves it \<open>undef\<close>); the model fixes it at 0.\<close>

fun init_fitness :: "nat \<Rightarrow> int scalar_or_vec \<Rightarrow> real vec_or_mat" where
  "init_fitness n (Scalar _) = AVec (replicate n 0)"
| "init_fitness n (Vector ss) = AMat (replicate n (replicate (length ss) 0))"

definition StdDE :: "'g rng \<Rightarrow> nat \<Rightarrow> bound list \<Rightarrow> std_options \<Rightarrow> int scalar_or_vec \<Rightarrow> 'g
                       \<Rightarrow> (std_de \<times> 'g) result" where
  "StdDE r n bnds opt sns g =
     (if \<not> bounds_ok bnds then Inl InvalidConfiguration
      else if \<not> senses_ok sns then Inl InvalidConfiguration
      else let (P, g1) = init_population r n bnds g
           in Inr (\<lparr>pop = P, fitness = init_fitness n sns, senses = sns, bounds = bnds,
                    options = opt\<rparr>, g1))"

text \<open>A four-individual, one-dimensional minimising evolver used by the witnesses.\<close>

definition demo_de :: std_de where
  "demo_de = \<lparr>pop = [[1], [2], [-1], [4]], fitness = AVec [5, 3, 2, 7], senses = Scalar (-1),
              bounds = [(-5, 5)], options = \<lparr>F = 1/2, Cr = 9/10\<rparr>\<rparr>"

subsection \<open>Properties of construction\<close>

lemma init_gene_within:
  fixes l h u :: real
  assumes "l \<le> h" "0 \<le> u" "u < 1"
  shows "l \<le> l + u * (h - l) \<and> l + u * (h - l) \<le> h"
proof -
  have "0 \<le> u * (h - l)" using assms by simp
  moreover have "u * (h - l) \<le> h - l" using assms by (simp add: mult_left_le_one_le)
  ultimately show ?thesis by linarith
qed

lemma init_individual_within:
  assumes "rng_ok r" and "bounds_ok bnds"
  shows "within_bounds bnds (fst (init_individual r bnds g))"
  using assms(2)
proof (induction bnds arbitrary: g)
  case (Cons b bs)
  have "fst b \<le> snd b" "bounds_ok bs" using Cons.prems by auto
  with init_gene_within[OF this(1) rng_okD(1,2)[OF assms(1)], of g] Cons.IH
  show ?case by (simp split: prod.splits) (metis fst_conv snd_conv)
qed simp

lemma init_population_props:
  assumes "rng_ok r" and "bounds_ok bnds"
  shows "length (fst (init_population r n bnds g)) = n
         \<and> list_all (within_bounds bnds) (fst (init_population r n bnds g))"
proof (induction n arbitrary: g)
  case (Suc n)
  then show ?case using init_individual_within[OF assms]
    by (simp split: prod.splits) (metis fst_conv snd_conv)
qed simp

lemma length_init_population [simp]: "length (fst (init_population r n bnds g)) = n"
  by (induction n arbitrary: g) (auto split: prod.splits, metis fst_conv)

lemma StdDE_InrD:
  assumes "StdDE r n bnds opt sns g = Inr (de, g')"
  shows "bounds_ok bnds \<and> senses_ok sns \<and> g' = snd (init_population r n bnds g)
         \<and> de = \<lparr>pop = fst (init_population r n bnds g), fitness = init_fitness n sns, senses = sns,
                 bounds = bnds, options = opt\<rparr>"
  using assms by (auto simp: StdDE_def split: if_splits prod.splits)

lemma StdDE_wf:
  assumes "rng_ok r" and "options_ok opt" and "StdDE r n bnds opt sns g = Inr (de, g')"
  shows "std_de_wf de \<and> pop_in_bounds de \<and> length (pop de) = n \<and> bounds de = bnds"
proof -
  note d = StdDE_InrD[OF assms(3)]
  note P = init_population_props[OF assms(1), of bnds n g]
  have rows: "list_all (\<lambda>x. length x = length bnds) (fst (init_population r n bnds g))"
    using P d by (auto simp: list_all_iff dest: within_bounds_length)
  have "fitness_shape_ok n sns (init_fitness n sns)"
    by (cases sns) (simp_all add: list_all_iff)
  then show ?thesis using P d rows assms(2) by (simp add: std_de_wf_def pop_in_bounds_def)
qed

lemma StdDE_Inr_iff:
  "(\<exists>x. StdDE r n bnds opt sns g = Inr x) \<longleftrightarrow> bounds_ok bnds \<and> senses_ok sns"
  by (auto simp: StdDE_def split: prod.splits)

text \<open>
  C13: a constructed evolver has n individuals of dimension d (the rows of the bounds),
  one objective for a scalar sense and m for a vector of m senses (the multi-objective
  variant, whose fitness has one column of m values per individual), is well formed, and
  its initial population lies inside the box.
\<close>

theorem StdDE_constructs:
  assumes "rng_ok r" and "options_ok opt" and "StdDE r n bnds opt sns g = Inr (de, g')"
  shows "nindividuals de = n \<and> ndims de = length bnds
         \<and> nobjectives de = (case sns of Scalar _ \<Rightarrow> 1 | Vector ss \<Rightarrow> length ss)
         \<and> (is_SoDE de \<longleftrightarrow> (\<exists>s. sns = Scalar s))
         \<and> std_de_wf de \<and> pop_in_bounds de"
  using StdDE_wf[OF assms] StdDE_InrD[OF assms(3)]
  by (cases sns) (simp_all add: nindividuals_def ndims_def nobjectives_def is_SoDE_def)

lemma StdDE_constructs_witness:
  "\<exists>de g'. rng_ok demo_rng \<and> options_ok \<lparr>F = 1/2, Cr = 9/10\<rparr>
     \<and> StdDE demo_rng 10 [(-5, 5), (-5, 5)] \<lparr>F = 1/2, Cr = 9/10\<rparr> (Vector [1, -1]) 0 = Inr (de, g')
     \<and> nobjectives de = 2 \<and> nindividuals de = 10 \<and> ndims de = 2 \<and> \<not> is_SoDE de \<and> pop_in_bounds de"
proof -
  have o: "options_ok \<lparr>F = 1/2, Cr = 9/10\<rparr>" by (simp add: options_ok_def)
  obtain de g' where c: "StdDE demo_rng 10 [(-5, 5), (-5, 5)] \<lparr>F = 1/2, Cr = 9/10\<rparr> (Vector [1, -1]) 0
      = Inr (de, g')"
    using StdDE_Inr_iff[of demo_rng 10 "[(-5, 5), (-5, 5)]" "\<lparr>F = 1/2, Cr = 9/10\<rparr>" "Vector [1, -1]" 0]
    by (auto simp: sense_ok_def)
  show ?thesis using StdDE_constructs[OF rng_ok_demo_rng o c] rng_ok_demo_rng o c by auto
qed

text \<open>
  The multi-objective variant is typed as the docstring says: a vector of m senses
  gives a StdMoDE (not single objective) with m >= 1 objectives whose fitness is a
  matrix holding one column of m values for each of the n individuals.
\<close>

theorem StdMoDE_fitness_shape:
  assumes "StdDE r n bnds opt (Vector ss) g = Inr (de, g')"
  shows "\<not> is_SoDE de \<and> nobjectives de = length ss \<and> 0 < nobjectives de
         \<and> (\<exists>rows. fitness de = AMat rows \<and> length rows = nindividuals de
                   \<and> (\<forall>row \<in> set rows. length row = nobjectives de))"
  using StdDE_InrD[OF assms]
  by (simp add: is_SoDE_def nobjectives_def nindividuals_def)

lemma StdMoDE_fitness_shape_witness:
  "\<exists>de g'. StdDE demo_rng 3 [(0, 1)] \<lparr>F = 1/2, Cr = 9/10\<rparr> (Vector [1, -1]) 0 = Inr (de, g')
     \<and> nobjectives de = 2 \<and> fitness de = AMat [[0, 0], [0, 0], [0, 0]]"
proof -
  obtain de g' where c: "StdDE demo_rng 3 [(0, 1)] \<lparr>F = 1/2, Cr = 9/10\<rparr> (Vector [1, -1]) 0 = Inr (de, g')"
    using StdDE_Inr_iff[of demo_rng 3 "[(0, 1)]" "\<lparr>F = 1/2, Cr = 9/10\<rparr>" "Vector [1, -1]" 0]
    by (auto simp: sense_ok_def)
  have "fitness de = init_fitness 3 (Vector [1, -1])" using StdDE_InrD[OF c] by simp
  also have "\<dots> = AMat [[0, 0], [0, 0], [0, 0]]" by (simp add: eval_nat_numeral)
  finally have f: "fitness de = AMat [[0, 0], [0, 0], [0, 0]]" .
  have "nobjectives de = length [1, -1::int]" using StdMoDE_fitness_shape[OF c] by blast
  then show ?thesis using c f by auto
qed

end
