(* ===== verification/DE_Mutation.thy ===== *)
theory DE_Mutation
  imports DE_Model
begin

text \<open>
  DE/rand/1 mutation (\<open>mutate_rand_1!\<close>). The lower-level method takes the target index
  \<open>i\<close>, the population, \<open>F\<close> and an index array holding \<open>0..n-1\<close> in some order; it
  uses the first three entries that differ from \<open>i\<close> as \<open>r1, r2, r3\<close> and returns the
  donor \<open>x_r1 + F * (x_r2 - x_r3)\<close>. The method on a \<open>StdDE\<close> draws the order with a
  Fisher-Yates shuffle (Julia's \<open>shuffle!\<close>) and calls the lower-level one.
\<close>

definition pick3 :: "nat \<Rightarrow> nat list \<Rightarrow> (nat \<times> nat \<times> nat) option" where
  "pick3 i idx = (case filter (\<lambda>k. k \<noteq> i) idx of a # b # c # _ \<Rightarrow> Some (a, b, c) | _ \<Rightarrow> None)"

definition donor :: "real \<Rightarrow> vec \<Rightarrow> vec \<Rightarrow> vec \<Rightarrow> vec" where
  "donor f x1 x2 x3 = vadd x1 (vscale f (vsub x2 x3))"

definition mutate_rand_1_low :: "nat \<Rightarrow> population \<Rightarrow> real \<Rightarrow> nat list \<Rightarrow> vec result" where
  "mutate_rand_1_low i P f idx =
     (let n = length P in
      if length idx \<noteq> n \<or> n \<le> i then Inl DimensionMismatch
      else case pick3 i idx of
        None \<Rightarrow> Inl InvalidConfiguration
      | Some (r1, r2, r3) \<Rightarrow>
          if n \<le> r1 \<or> n \<le> r2 \<or> n \<le> r3 then Inl DimensionMismatch
          else Inr (donor f (P ! r1) (P ! r2) (P ! r3)))"

text \<open>Fisher-Yates: for \<open>k = n-1\<close> down to 1, swap entry \<open>k\<close> with a random entry \<open>j \<le> k\<close>.\<close>

fun fy_shuffle :: "'g rng \<Rightarrow> nat \<Rightarrow> 'a list \<Rightarrow> 'g \<Rightarrow> 'a list \<times> 'g" where
  "fy_shuffle r 0 xs g = (xs, g)"
| "fy_shuffle r (Suc k) xs g =
     (let (j, g1) = rand_below r (Suc (Suc k)) g
      in fy_shuffle r k (xs[Suc k := xs ! j, j := xs ! Suc k]) g1)"

definition shuffle :: "'g rng \<Rightarrow> 'a list \<Rightarrow> 'g \<Rightarrow> 'a list \<times> 'g" where
  "shuffle r xs g = fy_shuffle r (length xs - 1) xs g"

definition mutate_rand_1 :: "'g rng \<Rightarrow> nat \<Rightarrow> std_de \<Rightarrow> 'g \<Rightarrow> (vec \<times> 'g) result" where
  "mutate_rand_1 r i de g =
     (let (idx, g1) = shuffle r [0..<length (pop de)] g
      in bind_r (mutate_rand_1_low i (pop de) (F (options de)) idx) (\<lambda>V. Inr (V, g1)))"

subsection \<open>Index selection\<close>

lemma pick3_Some_iff:
  "pick3 i idx = Some (a, b, c) \<longleftrightarrow> (\<exists>rest. filter (\<lambda>k. k \<noteq> i) idx = a # b # c # rest)"
  by (auto simp: pick3_def split: list.splits)

lemma pick3_distinct:
  assumes "distinct idx" and "pick3 i idx = Some (a, b, c)"
  shows "distinct [i, a, b, c] \<and> a \<in> set idx \<and> b \<in> set idx \<and> c \<in> set idx"
proof -
  from assms(2) obtain rest where eq: "filter (\<lambda>k. k \<noteq> i) idx = a # b # c # rest"
    by (auto simp: pick3_Some_iff)
  have "distinct (filter (\<lambda>k. k \<noteq> i) idx)" using assms(1) by simp
  moreover have "set (filter (\<lambda>k. k \<noteq> i) idx) \<subseteq> set idx - {i}" by auto
  ultimately show ?thesis unfolding eq by auto
qed

lemma length_filter_neq_distinct:
  "distinct xs \<Longrightarrow> i \<in> set xs \<Longrightarrow> length (filter (\<lambda>k. k \<noteq> i) xs) = length xs - 1"
proof (induction xs)
  case (Cons a xs)
  show ?case
  proof (cases "a = i")
    case True
    with Cons.prems have "filter (\<lambda>k. k \<noteq> i) xs = xs" by (auto simp: filter_id_conv)
    with True show ?thesis by simp
  next
    case False
    with Cons have "length (filter (\<lambda>k. k \<noteq> i) xs) = length xs - 1" by simp
    moreover from False Cons.prems have "0 < length xs" by (auto dest: length_pos_if_in_set)
    ultimately show ?thesis using False by simp
  qed
qed simp

lemma pick3_exists:
  assumes "distinct idx" and "i \<in> set idx" and "4 \<le> length idx"
  shows "\<exists>a b c. pick3 i idx = Some (a, b, c)"
proof -
  have "3 \<le> length (filter (\<lambda>k. k \<noteq> i) idx)"
    using assms by (simp add: length_filter_neq_distinct)
  then obtain a b c rest where "filter (\<lambda>k. k \<noteq> i) idx = a # b # c # rest"
    by (metis Suc_le_length_iff numeral_3_eq_3)
  then show ?thesis by (auto simp: pick3_Some_iff)
qed

lemma mset_fy_shuffle:
  "rng_ok r \<Longrightarrow> k < length xs \<Longrightarrow> mset (fst (fy_shuffle r k xs g)) = mset xs"
proof (induction r k xs g rule: fy_shuffle.induct)
  case (1 r xs g)
  then show ?case by simp
next
  case (2 r k xs g)
  obtain j g1 where jg: "rand_below r (Suc (Suc k)) g = (j, g1)" by fastforce
  have "j < Suc (Suc k)" using rng_ok_below[OF "2.prems"(1), of "Suc (Suc k)" g] jg by simp
  then have j: "j < length xs" using "2.prems"(2) by simp
  have "mset (xs[Suc k := xs ! j, j := xs ! Suc k]) = mset xs"
    using j "2.prems"(2) by (simp add: mset_swap)
  moreover have "mset (fst (fy_shuffle r k (xs[Suc k := xs ! j, j := xs ! Suc k]) g1)) =
                 mset (xs[Suc k := xs ! j, j := xs ! Suc k])"
    using "2.IH"[OF jg[symmetric] refl] "2.prems" by simp
  ultimately show ?case using jg by simp
qed
lemma mset_shuffle: "rng_ok r \<Longrightarrow> mset (fst (shuffle r xs g)) = mset xs"
  by (cases xs) (simp_all add: shuffle_def mset_fy_shuffle)

lemma perm_upt_facts:
  assumes "mset idx = mset [0..<n]"
  shows "distinct idx" "set idx = {0..<n}" "length idx = n"
proof -
  show "distinct idx" using assms by (metis distinct_upt mset_eq_imp_distinct_iff)
  show "set idx = {0..<n}" using assms by (metis atLeastLessThan_upt set_mset_mset)
  show "length idx = n" using assms by (metis length_upt minus_nat.diff_0 size_mset)
qed

lemma length_donor [simp]:
  "length (donor f x1 x2 x3) = min (length x1) (min (length x2) (length x3))"
  by (simp add: donor_def)

lemma nth_donor:
  "j < length x1 \<Longrightarrow> j < length x2 \<Longrightarrow> j < length x3 \<Longrightarrow>
   donor f x1 x2 x3 ! j = x1 ! j + f * (x2 ! j - x3 ! j)"
  by (simp add: donor_def)

lemma mutate_rand_1_low_donor:
  assumes "mset idx = mset [0..<length P]" and "i < length P" and "4 \<le> length P"
  shows "\<exists>r1 r2 r3. distinct [i, r1, r2, r3] \<and> r1 < length P \<and> r2 < length P \<and> r3 < length P
           \<and> mutate_rand_1_low i P f idx = Inr (donor f (P ! r1) (P ! r2) (P ! r3))"
proof -
  note idx = perm_upt_facts[OF assms(1)]
  obtain a b c where abc: "pick3 i idx = Some (a, b, c)"
    using pick3_exists[OF idx(1)] idx(2,3) assms(2,3) by fastforce
  from pick3_distinct[OF idx(1) abc] idx(2)
  have "distinct [i, a, b, c]" "a < length P" "b < length P" "c < length P" by auto
  with abc idx(3) assms(2) show ?thesis
    by (auto simp: mutate_rand_1_low_def)
qed

lemma pick3_small:
  assumes "mset idx = mset [0..<n]" and "i < n" and "n < 4"
  shows "pick3 i idx = None"
proof -
  note idx = perm_upt_facts[OF assms(1)]
  have "length (filter (\<lambda>k. k \<noteq> i) idx) < 3"
    using idx assms(2,3) by (simp add: length_filter_neq_distinct)
  then show ?thesis by (auto simp: pick3_def split: list.splits)
qed

text \<open>
  C14: the explicit guard of DE/rand/1: with a valid index permutation and a target in
  range, a population of fewer than four individuals is rejected as an invalid
  configuration (three distinct partners do not exist).
\<close>

theorem mutate_rand_1_low_too_small:
  assumes "mset idx = mset [0..<length P]" and "i < length P" and "length P < 4"
  shows "mutate_rand_1_low i P f idx = Inl InvalidConfiguration"
  using pick3_small[OF assms] perm_upt_facts(3)[OF assms(1)] assms(2)
  by (simp add: mutate_rand_1_low_def)

lemma mutate_rand_1_unfold:
  "mutate_rand_1 r i de g =
     bind_r (mutate_rand_1_low i (pop de) (F (options de)) (fst (shuffle r [0..<length (pop de)] g)))
       (\<lambda>V. Inr (V, snd (shuffle r [0..<length (pop de)] g)))"
  by (simp add: mutate_rand_1_def split: prod.splits)

lemma mutate_rand_1_donor:
  assumes "rng_ok r" and "i < length (pop de)" and "4 \<le> length (pop de)"
  shows "\<exists>r1 r2 r3 g'. distinct [i, r1, r2, r3] \<and> r1 < length (pop de) \<and> r2 < length (pop de)
           \<and> r3 < length (pop de) \<and> mutate_rand_1 r i de g =
             Inr (donor (F (options de)) (pop de ! r1) (pop de ! r2) (pop de ! r3), g')"
proof -
  obtain idx g1 where sh: "shuffle r [0..<length (pop de)] g = (idx, g1)" by fastforce
  have "mset idx = mset [0..<length (pop de)]"
    using mset_shuffle[OF assms(1), of "[0..<length (pop de)]" g] sh by simp
  from mutate_rand_1_low_donor[OF this assms(2,3), of "F (options de)"] sh show ?thesis
    by (auto simp: mutate_rand_1_def)
qed

subsection \<open>Properties of DE/rand/1\<close>

text \<open>
  C5: whatever index array it is given, as long as its entries are distinct, a successful
  lower-level DE/rand/1 call used three indices that are pairwise distinct, distinct from
  the target \<open>i\<close> and within the population, and returned
  \<open>x_r1 + F * (x_r2 - x_r3)\<close> for them.
\<close>

theorem mutate_rand_1_low_sound:
  assumes "distinct idx" and "mutate_rand_1_low i P f idx = Inr V"
  shows "\<exists>r1 r2 r3. distinct [i, r1, r2, r3] \<and> i < length P \<and> r1 < length P
           \<and> r2 < length P \<and> r3 < length P \<and> V = donor f (P ! r1) (P ! r2) (P ! r3)"
proof -
  from assms(2) obtain r1 r2 r3 where p: "pick3 i idx = Some (r1, r2, r3)"
    by (auto simp: mutate_rand_1_low_def Let_def split: if_splits option.splits)
  with assms(2) have "i < length P" "r1 < length P" "r2 < length P" "r3 < length P"
    and "V = donor f (P ! r1) (P ! r2) (P ! r3)"
    by (auto simp: mutate_rand_1_low_def Let_def split: if_splits)
  with pick3_distinct[OF assms(1) p] show ?thesis by blast
qed

lemma mutate_rand_1_low_sound_witness:
  "distinct [2, 0, 3, 1::nat] \<and>
   mutate_rand_1_low 0 [[0], [1], [2], [4]] (1/2) [2, 0, 3, 1] = Inr [2 + 1/2 * (4 - 1)] \<and>
   (\<exists>r1 r2 r3. distinct [0, r1, r2, r3] \<and> 0 < (4::nat) \<and> r1 < 4 \<and> r2 < 4 \<and> r3 < 4
      \<and> [2 + 1/2 * (4 - 1)] = donor (1/2) ([[0], [1], [2], [4]] ! r1)
           ([[0], [1], [2], [4]] ! r2) ([[0], [1], [2], [4]] ! r3))"
proof -
  have d: "distinct [2, 0, 3, 1::nat]" by simp
  have m: "mutate_rand_1_low 0 [[0], [1], [2], [4]] (1/2) [2, 0, 3, 1] = Inr [2 + 1/2 * (4 - 1)]"
    by (simp add: mutate_rand_1_low_def pick3_def donor_def vadd_def vsub_def vscale_def)
  show ?thesis using mutate_rand_1_low_sound[OF d m] d m by (simp add: eval_nat_numeral)
qed

lemma mutate_rand_1_low_too_small_witness:
  "mset [2, 0, 1] = mset [0..<length [[0], [1], [2::real]]] \<and> 0 < length [[0], [1], [2::real]]
   \<and> length [[0], [1], [2::real]] < 4
   \<and> mutate_rand_1_low 0 [[0], [1], [2]] (1/2) [2, 0, 1] = Inl InvalidConfiguration"
proof -
  have h: "mset [2, 0, 1] = mset [0..<length [[0], [1], [2::real]]]" "0 < length [[0], [1], [2::real]]"
    "length [[0], [1], [2::real]] < 4" by (simp_all add: upt_conv_Cons)
  show ?thesis using mutate_rand_1_low_too_small[OF h, of "1/2"] h by simp
qed

text \<open>
  C19: the Fisher-Yates shuffle that feeds DE/rand/1 turns the index array 0..n-1 into a
  permutation of it: every index occurs exactly once.
\<close>

theorem shuffle_upt_perm:
  assumes "rng_ok r"
  shows "distinct (fst (shuffle r [0..<n] g)) \<and> set (fst (shuffle r [0..<n] g)) = {0..<n}
         \<and> length (fst (shuffle r [0..<n] g)) = n"
  using perm_upt_facts[OF mset_shuffle[OF assms, of "[0..<n]" g]] by simp

lemma shuffle_upt_perm_witness:
  "rng_ok demo_rng \<and> fst (shuffle demo_rng [0..<4] 0) = [1, 2, 3, 0]
   \<and> distinct [1, 2, 3, 0::nat] \<and> set [1, 2, 3, 0::nat] = {0..<4}"
proof -
  have s: "fst (shuffle demo_rng [0..<4] 0) = [1, 2, 3, 0]"
    by code_simp
  show ?thesis using shuffle_upt_perm[OF rng_ok_demo_rng, of 4 0] s rng_ok_demo_rng by simp
qed

text \<open>
  C30: DE/rand/1 on an evolver, on every branch: a target outside the population is a
  dimension mismatch, a population of fewer than four individuals an invalid
  configuration; otherwise the donor is x_r1 + F (x_r2 - x_r3) for three in-range indices,
  pairwise distinct and distinct from the target, and the generator moves on by exactly
  the draws of one shuffle of the indices.
\<close>

theorem mutate_rand_1_cases:
  assumes "rng_ok r"
  shows "(length (pop de) \<le> i \<longrightarrow> mutate_rand_1 r i de g = Inl DimensionMismatch)
       \<and> (i < length (pop de) \<and> length (pop de) < 4 \<longrightarrow> mutate_rand_1 r i de g = Inl InvalidConfiguration)
       \<and> (i < length (pop de) \<and> 4 \<le> length (pop de) \<longrightarrow>
            (\<exists>r1 r2 r3. distinct [i, r1, r2, r3] \<and> r1 < length (pop de) \<and> r2 < length (pop de)
               \<and> r3 < length (pop de) \<and> mutate_rand_1 r i de g =
                 Inr (donor (F (options de)) (pop de ! r1) (pop de ! r2) (pop de ! r3),
                      snd (shuffle r [0..<length (pop de)] g))))"
proof -
  let ?n = "length (pop de)" and ?idx = "fst (shuffle r [0..<length (pop de)] g)"
  have p: "mset ?idx = mset [0..<?n]" by (rule mset_shuffle[OF assms])
  note idx = perm_upt_facts[OF p]
  have d: "?n \<le> i \<longrightarrow> mutate_rand_1 r i de g = Inl DimensionMismatch"
    by (simp add: mutate_rand_1_unfold mutate_rand_1_low_def)
  have s: "i < ?n \<and> ?n < 4 \<longrightarrow> mutate_rand_1 r i de g = Inl InvalidConfiguration"
    using pick3_small[OF p] idx(3) by (simp add: mutate_rand_1_unfold mutate_rand_1_low_def)
  have ok: "i < ?n \<and> 4 \<le> ?n \<longrightarrow>
            (\<exists>r1 r2 r3. distinct [i, r1, r2, r3] \<and> r1 < ?n \<and> r2 < ?n \<and> r3 < ?n \<and> mutate_rand_1 r i de g =
                 Inr (donor (F (options de)) (pop de ! r1) (pop de ! r2) (pop de ! r3),
                      snd (shuffle r [0..<length (pop de)] g)))"
    using mutate_rand_1_low_donor[OF p, of i "F (options de)"] by (auto simp: mutate_rand_1_unfold)
  show ?thesis using d s ok by blast
qed

lemma mutate_rand_1_cases_witness:
  "rng_ok demo_rng
   \<and> mutate_rand_1 demo_rng 5 demo_de 0 = Inl DimensionMismatch
   \<and> mutate_rand_1 demo_rng 0 (demo_de\<lparr>pop := [[1], [2], [3]]\<rparr>) 0 = Inl InvalidConfiguration
   \<and> (\<exists>r1 r2 r3 g'. distinct [0::nat, r1, r2, r3] \<and> r1 < 4 \<and> r2 < 4 \<and> r3 < 4
        \<and> mutate_rand_1 demo_rng 0 demo_de 0 =
            Inr (donor (1/2) (pop demo_de ! r1) (pop demo_de ! r2) (pop demo_de ! r3), g'))"
proof -
  note c1 = mutate_rand_1_cases[OF rng_ok_demo_rng, of demo_de 5 0]
  note c2 = mutate_rand_1_cases[OF rng_ok_demo_rng, of "demo_de\<lparr>pop := [[1], [2], [3]]\<rparr>" 0 0]
  note c3 = mutate_rand_1_cases[OF rng_ok_demo_rng, of demo_de 0 0]
  have n: "length (pop demo_de) = 4" "F (options demo_de) = 1/2" by (simp_all add: demo_de_def)
  have "\<exists>r1 r2 r3 g'. distinct [0::nat, r1, r2, r3] \<and> r1 < 4 \<and> r2 < 4 \<and> r3 < 4
        \<and> mutate_rand_1 demo_rng 0 demo_de 0 =
            Inr (donor (1/2) (pop demo_de ! r1) (pop demo_de ! r2) (pop demo_de ! r3), g')"
    using c3 n by (simp only: n) (simp, blast)
  then show ?thesis using c1 c2 n rng_ok_demo_rng by simp
qed

end
