(* ===== verification/DE_Crossover.thy ===== *)
theory DE_Crossover
  imports DE_Model
begin

text \<open>
  Binomial crossover (\<open>crossover_binomial!\<close>). The vector method recombines a target
  \<open>X\<close> and a donor \<open>V\<close> into a trial \<open>U\<close>: one index \<open>jrand\<close> is drawn once per call,
  then for every gene \<open>j\<close> a uniform number is drawn and \<open>U[j] = V[j]\<close> if it is below
  \<open>Cr\<close> or \<open>j = jrand\<close>, else \<open>X[j]\<close>. The method on a \<open>StdDE\<close> takes \<open>X\<close> as the
  \<open>i\<close>-th individual and \<open>Cr\<close> from the options. The abstract operation \<open>binomial_mix\<close>
  says what a trial is: the target with the genes of a set of positions replaced by the
  donor's.
\<close>

fun cx_genes :: "'g rng \<Rightarrow> real \<Rightarrow> nat \<Rightarrow> nat \<Rightarrow> vec \<Rightarrow> vec \<Rightarrow> 'g \<Rightarrow> vec \<times> 'g" where
  "cx_genes r cr jr j (x # xs) (v # vs) g =
     (let (u, g1) = rand_unit r g;
          (us, g2) = cx_genes r cr jr (Suc j) xs vs g1
      in ((if u < cr \<or> j = jr then v else x) # us, g2))"
| "cx_genes r cr jr j _ _ g = ([], g)"

definition crossover_binomial :: "'g rng \<Rightarrow> vec \<Rightarrow> vec \<Rightarrow> real \<Rightarrow> 'g \<Rightarrow> (vec \<times> 'g) result" where
  "crossover_binomial r X V cr g =
     (if length X \<noteq> length V then Inl DimensionMismatch
      else if X = [] then Inl ArgumentError
      else let (jr, g1) = rand_below r (length X) g
           in Inr (cx_genes r cr jr 0 X V g1))"

definition crossover_binomial_de :: "'g rng \<Rightarrow> nat \<Rightarrow> std_de \<Rightarrow> vec \<Rightarrow> 'g \<Rightarrow> (vec \<times> 'g) result" where
  "crossover_binomial_de r i de V g =
     (if length (pop de) \<le> i then Inl DimensionMismatch
      else crossover_binomial r (pop de ! i) V (Cr (options de)) g)"

definition binomial_mix :: "nat set \<Rightarrow> vec \<Rightarrow> vec \<Rightarrow> vec" where
  "binomial_mix S X V = map (\<lambda>k. if k \<in> S then V ! k else X ! k) [0..<length X]"

subsection \<open>The gene loop\<close>

lemma cx_genes_Cons_fst:
  "fst (cx_genes r cr jr j (x # xs) (v # vs) g) =
     (if fst (rand_unit r g) < cr \<or> j = jr then v else x)
       # fst (cx_genes r cr jr (Suc j) xs vs (snd (rand_unit r g)))"
  by (simp split: prod.splits)

declare cx_genes.simps(1) [simp del]

lemma length_cx_genes [simp]:
  "length (fst (cx_genes r cr jr j xs vs g)) = min (length xs) (length vs)"
proof (induction xs arbitrary: vs j g)
  case (Cons x xs)
  then show ?case by (cases vs) (auto simp: cx_genes_Cons_fst)
qed simp

lemma nth_cx_genes:
  assumes "k < length xs" and "length vs = length xs"
  shows "fst (cx_genes r cr jr j xs vs g) ! k = xs ! k \<or> fst (cx_genes r cr jr j xs vs g) ! k = vs ! k"
  using assms
proof (induction xs arbitrary: vs j g k)
  case (Cons x xs)
  then obtain v vs' where "vs = v # vs'" by (cases vs) auto
  with Cons show ?case by (cases k) (auto simp: cx_genes_Cons_fst)
qed simp

lemma nth_cx_genes_jrand:
  assumes "j \<le> jr" and "jr - j < length xs" and "length vs = length xs"
  shows "fst (cx_genes r cr jr j xs vs g) ! (jr - j) = vs ! (jr - j)"
  using assms
proof (induction xs arbitrary: vs j g)
  case (Cons x xs)
  then obtain v vs' where vs: "vs = v # vs'" by (cases vs) auto
  show ?case
  proof (cases "j = jr")
    case True
    then show ?thesis by (simp add: vs cx_genes_Cons_fst)
  next
    case False
    with Cons.prems vs have "Suc j \<le> jr" "jr - Suc j < length xs" "length vs' = length xs" by auto
    from Cons.IH[OF this] have "fst (cx_genes r cr jr (Suc j) xs vs' (snd (rand_unit r g))) !
        (jr - Suc j) = vs' ! (jr - Suc j)" .
    moreover have "jr - j = Suc (jr - Suc j)" using \<open>Suc j \<le> jr\<close> by simp
    ultimately show ?thesis using False by (simp add: vs cx_genes_Cons_fst)
  qed
qed simp

lemma cx_genes_is_mix:
  assumes "length vs = length xs" and "jr < length xs"
  shows "\<exists>S. jr \<in> S \<and> fst (cx_genes r cr jr 0 xs vs g) = binomial_mix S xs vs"
proof -
  define U where "U = fst (cx_genes r cr jr 0 xs vs g)"
  define S where "S = insert jr {k. U ! k = vs ! k}"
  have key: "U ! k = (if k \<in> S then vs ! k else xs ! k)" if "k < length xs" for k
  proof (cases "k = jr")
    case True
    then show ?thesis using nth_cx_genes_jrand[of 0 jr xs vs] assms by (simp add: U_def S_def)
  next
    case False
    then show ?thesis using nth_cx_genes[OF that assms(1), of r cr jr 0 g]
      unfolding U_def S_def by auto
  qed
  have "U = binomial_mix S xs vs"
  proof (rule nth_equalityI)
    show "length U = length (binomial_mix S xs vs)"
      using assms(1) by (simp add: U_def binomial_mix_def)
  next
    fix k assume "k < length U"
    then have k: "k < length xs" using assms(1) by (simp add: U_def)
    then have "binomial_mix S xs vs ! k = (if k \<in> S then vs ! k else xs ! k)"
      by (simp add: binomial_mix_def)
    with key[OF k] show "U ! k = binomial_mix S xs vs ! k" by (rule trans_sym)
  qed
  moreover have "jr \<in> S" by (simp add: S_def)
  ultimately show ?thesis unfolding U_def by blast
qed

subsection \<open>Properties of binomial crossover\<close>

text \<open>
  C4: on a target and a donor of the same nonzero length, binomial crossover always
  returns a trial, and the trial is the target with the genes of some set of positions
  replaced by the donor's, where that set contains the position \<open>jrand < d\<close> drawn once
  per call: at least one gene is always taken from the donor.
\<close>

theorem crossover_binomial_mix:
  assumes "rng_ok r" and "length V = length X" and "X \<noteq> []"
  shows "\<exists>U g' jr S. crossover_binomial r X V cr g = Inr (U, g') \<and> jr < length X \<and> jr \<in> S
           \<and> U = binomial_mix S X V"
proof -
  obtain jr g1 where jg: "rand_below r (length X) g = (jr, g1)" by fastforce
  have jr: "jr < length X"
    using rng_ok_below[OF assms(1), of "length X" g] jg assms(3) by simp
  from cx_genes_is_mix[OF assms(2) jr, where r = r and cr = cr and g = g1] obtain S
    where S: "jr \<in> S" "fst (cx_genes r cr jr 0 X V g1) = binomial_mix S X V"
    by (elim exE conjE) (rule that)
  have cb: "crossover_binomial r X V cr g = Inr (cx_genes r cr jr 0 X V g1)"
    using jg assms(2,3) by (simp add: crossover_binomial_def)
  show ?thesis
    by (rule exI[of _ "fst (cx_genes r cr jr 0 X V g1)"], rule exI[of _ "snd (cx_genes r cr jr 0 X V g1)"],
        rule exI[of _ jr], rule exI[of _ S]) (simp add: cb jr S(1) S(2)[symmetric])
qed

lemma crossover_binomial_mix_witness:
  "rng_ok demo_rng \<and> length [7, 2::real] = length [1, 2::real] \<and> [1, 2::real] \<noteq> [] \<and>
   (\<exists>U g' jr S. crossover_binomial demo_rng [1, 2] [7, 2] (3/10) 1 = Inr (U, g')
      \<and> jr < length [1, 2::real] \<and> jr \<in> S \<and> U = binomial_mix S [1, 2] [7, 2])"
proof -
  have h: "length [7, 2::real] = length [1, 2::real]" "[1, 2::real] \<noteq> []" by simp_all
  show ?thesis using crossover_binomial_mix[OF rng_ok_demo_rng h, of "3/10" 1] rng_ok_demo_rng h
    by simp
qed

text \<open>
  In one dimension the crossover rate is irrelevant: the only position is
  \<open>jrand\<close>, so the trial is the donor.
\<close>

theorem crossover_binomial_one_dim:
  assumes "rng_ok r" and "length X = 1" and "length V = 1"
  shows "\<exists>g'. crossover_binomial r X V cr g = Inr (V, g')"
proof -
  obtain jr g1 where jg: "rand_below r 1 g = (jr, g1)" by fastforce
  have "jr = 0" using rng_ok_below[OF assms(1), of 1 g] jg by simp
  let ?U = "fst (cx_genes r cr jr 0 X V g1)"
  have "?U ! 0 = V ! 0" using nth_cx_genes_jrand[of 0 jr X V] assms(2,3) \<open>jr = 0\<close> by simp
  moreover have "length ?U = 1" using assms(2,3) by simp
  ultimately have "?U = V" using assms(3) by (auto intro!: nth_equalityI)
  then have c: "cx_genes r cr jr 0 X V g1 = (V, snd (cx_genes r cr jr 0 X V g1))"
    by (metis prod.collapse)
  have "crossover_binomial r X V cr g = Inr (V, snd (cx_genes r cr jr 0 X V g1))"
    using jg assms(2,3) c by (auto simp: crossover_binomial_def)
  then show ?thesis by (rule exI)
qed

lemma crossover_binomial_one_dim_witness:
  "rng_ok demo_rng \<and> length [3::real] = 1 \<and> length [8::real] = 1 \<and>
   (\<exists>g'. crossover_binomial demo_rng [3] [8] (1/10) 5 = Inr ([8], g'))"
  using crossover_binomial_one_dim[OF rng_ok_demo_rng, of "[3]" "[8]" "1/10" 5]
  by (simp add: rng_ok_demo_rng)

text \<open>
  The spec says binomial crossover never returns a trial identical to the target.
  It copies at least one donor gene, but when the donor agrees with the target at
  \<open>jrand\<close> and no other gene is drawn, the trial is the target itself: here \<open>jrand = 1\<close>,
  gene 0 draws 0.4 \<open>\<ge>\<close> Cr = 0.3, and \<open>V[1] = X[1]\<close>.
\<close>

theorem crossover_binomial_trial_can_equal_target:
  "crossover_binomial demo_rng [1, 2] [7, 2] (3/10) 1 = Inr ([1, 2], 18)"
  by (simp add: crossover_binomial_def demo_rng_def cx_genes.simps)

end
