(* ===== verification/DE_Boundary.thy ===== *)
theory DE_Boundary
  imports DE_Model
begin

text \<open>
  Bounce-back boundary handling (\<open>bc = :bounce_back\<close> of \<open>evolve!\<close>). For each gene of
  the trial \<open>U\<close>: below its lower bound \<open>l\<close> it is reset to \<open>l + rand() * (X[j] - l)\<close>,
  above its upper bound \<open>h\<close> to \<open>h - rand() * (h - X[j])\<close>, where \<open>X\<close> is the target;
  a gene inside its bounds is kept and draws no random number.
\<close>

fun bb_genes :: "'g rng \<Rightarrow> vec \<Rightarrow> vec \<Rightarrow> bound list \<Rightarrow> 'g \<Rightarrow> vec \<times> 'g" where
  "bb_genes r (u # us) (x # xs) (b # bs) g =
     (if u < fst b then
        (let (t, g1) = rand_unit r g;
             (ys, g2) = bb_genes r us xs bs g1
         in ((fst b + t * (x - fst b)) # ys, g2))
      else if snd b < u then
        (let (t, g1) = rand_unit r g;
             (ys, g2) = bb_genes r us xs bs g1
         in ((snd b - t * (snd b - x)) # ys, g2))
      else
        (let (ys, g2) = bb_genes r us xs bs g
         in (u # ys, g2)))"
| "bb_genes r _ _ _ g = ([], g)"

definition bounce_back :: "'g rng \<Rightarrow> vec \<Rightarrow> vec \<Rightarrow> bound list \<Rightarrow> 'g \<Rightarrow> (vec \<times> 'g) result" where
  "bounce_back r U X bnds g =
     (if length U \<noteq> length bnds \<or> length X \<noteq> length bnds then Inl DimensionMismatch
      else Inr (bb_genes r U X bnds g))"

text \<open>
  The per-gene contract of the spec: a gene below its lower bound ends between the lower
  bound and the target gene, one above its upper bound between the target gene and the
  upper bound, and a gene within its bounds is kept.
\<close>

definition gene_repaired :: "bound \<Rightarrow> real \<Rightarrow> real \<Rightarrow> real \<Rightarrow> bool" where
  "gene_repaired b x u v \<longleftrightarrow>
     (u < fst b \<longrightarrow> fst b \<le> v \<and> v \<le> x) \<and> (snd b < u \<longrightarrow> x \<le> v \<and> v \<le> snd b)
     \<and> (fst b \<le> u \<and> u \<le> snd b \<longrightarrow> v = u)"

subsection \<open>One gene\<close>

lemma bounce_low_within:
  fixes l h x t :: real
  assumes "l \<le> x" "x \<le> h" "0 \<le> t" "t < 1"
  shows "l \<le> l + t * (x - l) \<and> l + t * (x - l) \<le> h \<and> l + t * (x - l) \<le> x"
proof -
  have "0 \<le> t * (x - l)" using assms by simp
  moreover have "t * (x - l) \<le> x - l"
    using assms by (simp add: mult_left_le_one_le)
  ultimately show ?thesis using assms by linarith
qed

lemma bounce_high_within:
  fixes l h x t :: real
  assumes "l \<le> x" "x \<le> h" "0 \<le> t" "t < 1"
  shows "l \<le> h - t * (h - x) \<and> h - t * (h - x) \<le> h \<and> x \<le> h - t * (h - x)"
proof -
  have "0 \<le> t * (h - x)" using assms by simp
  moreover have "t * (h - x) \<le> h - x"
    using assms by (simp add: mult_left_le_one_le)
  ultimately show ?thesis using assms by linarith
qed

lemma bb_genes_Cons_fst:
  "fst (bb_genes r (u # us) (x # xs) (b # bs) g) =
     (if u < fst b then (fst b + fst (rand_unit r g) * (x - fst b))
                          # fst (bb_genes r us xs bs (snd (rand_unit r g)))
      else if snd b < u then (snd b - fst (rand_unit r g) * (snd b - x))
                          # fst (bb_genes r us xs bs (snd (rand_unit r g)))
      else u # fst (bb_genes r us xs bs g))"
  by (simp split: prod.splits)

declare bb_genes.simps(1) [simp del]

lemma length_bb_genes [simp]:
  "length (fst (bb_genes r us xs bs g)) = min (length us) (min (length xs) (length bs))"
proof (induction us arbitrary: xs bs g)
  case (Cons u us)
  then show ?case
    by (cases xs; cases bs) (auto simp: bb_genes_Cons_fst)
qed simp

lemma bb_genes_within:
  assumes "rng_ok r" and "within_bounds bs xs" and "length us = length bs"
  shows "within_bounds bs (fst (bb_genes r us xs bs g))"
  using assms(2,3)
proof (induction us arbitrary: xs bs g)
  case Nil
  then show ?case by simp
next
  case (Cons u us)
  from Cons.prems obtain b bs' x xs' where bs: "bs = b # bs'" and xs: "xs = x # xs'"
    by (cases bs; cases xs) (auto dest: within_bounds_length)
  from Cons.prems bs xs have x: "fst b \<le> x" "x \<le> snd b" and rest: "within_bounds bs' xs'"
    and len: "length us = length bs'" by auto
  have t: "0 \<le> fst (rand_unit r g)" "fst (rand_unit r g) < 1"
    using rng_okD[OF assms(1)] by auto
  have IH: "within_bounds bs' (fst (bb_genes r us xs' bs' g'))" for g'
    using Cons.IH[OF rest len] .
  show ?case
    using bounce_low_within[OF x t] bounce_high_within[OF x t] IH
    by (auto simp: bs xs bb_genes_Cons_fst)
qed

lemma bb_genes_inside:
  assumes "within_bounds bs us" and "length xs = length us"
  shows "bb_genes r us xs bs g = (us, g)"
  using assms
proof (induction us arbitrary: xs bs)
  case Nil
  then show ?case by (cases xs; cases bs) simp_all
next
  case (Cons u us)
  then obtain b bs' x xs' where "bs = b # bs'" "xs = x # xs'"
    by (cases bs; cases xs) (auto dest: within_bounds_length)
  with Cons show ?case by (auto simp: bb_genes.simps(1))
qed

lemma bb_genes_nth:
  assumes "rng_ok r" and "within_bounds bs xs" and "length us = length bs" and "j < length bs"
  shows "gene_repaired (bs ! j) (xs ! j) (us ! j) (fst (bb_genes r us xs bs g) ! j)"
  using assms(2-4)
proof (induction us arbitrary: xs bs g j)
  case Nil
  then show ?case by simp
next
  case (Cons u us)
  from Cons.prems obtain b bs' x xs' where bs: "bs = b # bs'" and xs: "xs = x # xs'"
    by (cases bs; cases xs) (auto dest: within_bounds_length)
  from Cons.prems bs xs have x: "fst b \<le> x" "x \<le> snd b" and rest: "within_bounds bs' xs'"
    and len: "length us = length bs'" by auto
  have t: "0 \<le> fst (rand_unit r g)" "fst (rand_unit r g) < 1"
    using rng_okD[OF assms(1)] by auto
  show ?case
  proof (cases j)
    case 0
    then show ?thesis using bounce_low_within[OF x t] bounce_high_within[OF x t]
      by (auto simp: bs xs bb_genes_Cons_fst gene_repaired_def)
  next
    case (Suc j')
    then have j': "j' < length bs'" using Cons.prems(3) bs by simp
    have "gene_repaired (bs' ! j') (xs' ! j') (us ! j') (fst (bb_genes r us xs' bs' g') ! j')" for g'
      by (rule Cons.IH[OF rest len j'])
    then show ?thesis using Suc by (simp add: bs xs bb_genes_Cons_fst)
  qed
qed

subsection \<open>Properties of bounce-back\<close>

text \<open>
  C7: given a target inside the box and a trial with one gene per bound, bounce-back
  always succeeds and the repaired trial lies inside the box, inclusive.
\<close>

theorem bounce_back_within_bounds:
  assumes "rng_ok r" and "within_bounds bnds X" and "length U = length bnds"
  shows "\<exists>U' g'. bounce_back r U X bnds g = Inr (U', g') \<and> within_bounds bnds U'"
proof -
  have "length X = length bnds" using assms(2) by (rule within_bounds_length)
  then have "bounce_back r U X bnds g = Inr (fst (bb_genes r U X bnds g), snd (bb_genes r U X bnds g))"
    using assms(3) by (simp add: bounce_back_def)
  with bb_genes_within[OF assms] show ?thesis by blast
qed

lemma bounce_back_within_bounds_witness:
  "rng_ok demo_rng \<and> within_bounds [(-5, 5), (0, 1)] [2, 1/2] \<and> length [-9, 3::real] = length [(-5::real, 5::real), (0, 1)] \<and>
   (\<exists>U' g'. bounce_back demo_rng [-9, 3] [2, 1/2] [(-5, 5), (0, 1)] 4 = Inr (U', g')
      \<and> within_bounds [(-5, 5), (0, 1)] U')"
proof -
  have h: "within_bounds [(-5, 5), (0, 1)] [2, 1/2::real]" "length [-9, 3::real] = length [(-5::real, 5::real), (0, 1)]"
    by simp_all
  show ?thesis using bounce_back_within_bounds[OF rng_ok_demo_rng h, of 4] rng_ok_demo_rng h by simp
qed

text \<open>
  A trial that is already inside the box is returned unchanged, and no random number
  is drawn for it (the generator state is untouched).
\<close>

theorem bounce_back_inside_unchanged:
  assumes "within_bounds bnds U" and "within_bounds bnds X"
  shows "bounce_back r U X bnds g = Inr (U, g)"
proof -
  have "length U = length bnds" "length X = length bnds"
    using assms by (simp_all add: within_bounds_length)
  then show ?thesis using bb_genes_inside[OF assms(1)] by (simp add: bounce_back_def)
qed

lemma bounce_back_inside_unchanged_witness:
  "within_bounds [(-5, 5)] [3::real] \<and> within_bounds [(-5, 5)] [-1::real] \<and>
   bounce_back demo_rng [3] [-1] [(-5, 5)] 2 = Inr ([3], 2)"
proof -
  have h: "within_bounds [(-5, 5)] [3::real]" "within_bounds [(-5, 5)] [-1::real]" by simp_all
  show ?thesis using bounce_back_inside_unchanged[OF h, of demo_rng 2] h by simp
qed

text \<open>
  C31: bounce-back gene by gene: with a target inside the box, every gene of the repaired
  trial meets the spec's per-gene contract (reset between the violated bound and the
  target gene, or kept when within bounds), and the trial keeps one gene per bound.
\<close>

theorem bounce_back_genewise:
  assumes "rng_ok r" and "within_bounds bnds X" and "length U = length bnds"
    and "bounce_back r U X bnds g = Inr (U', g')"
  shows "length U' = length bnds \<and> (\<forall>j < length bnds. gene_repaired (bnds ! j) (X ! j) (U ! j) (U' ! j))"
proof -
  have "length X = length bnds" using assms(2) by (rule within_bounds_length)
  then have "U' = fst (bb_genes r U X bnds g)" using assms(3,4) by (auto simp: bounce_back_def)
  then show ?thesis using bb_genes_nth[OF assms(1-3)] assms(3) \<open>length X = length bnds\<close> by simp
qed

lemma bounce_back_genewise_witness:
  "rng_ok demo_rng \<and> within_bounds [(-5, 5), (0, 1)] [2, 1/2] \<and> length [-9, 3::real] = length [(-5::real, 5::real), (0, 1)]
   \<and> bounce_back demo_rng [-9, 3] [2, 1/2] [(-5, 5), (0, 1)] 4 = Inr ([-11/5, 19/20], 18)
   \<and> gene_repaired (-5, 5) 2 (-9) (-11/5) \<and> gene_repaired (0, 1) (1/2) 3 (19/20)"
proof -
  have h: "within_bounds [(-5, 5), (0, 1)] [2, 1/2::real]" "length [-9, 3::real] = length [(-5::real, 5::real), (0, 1)]"
    by simp_all
  have b: "bounce_back demo_rng [-9, 3] [2, 1/2] [(-5, 5), (0, 1)] 4 = Inr ([-11/5, 19/20], 18)"
    by (simp add: bounce_back_def bb_genes_Cons_fst bb_genes.simps demo_rng_def)
  show ?thesis using bounce_back_genewise[OF rng_ok_demo_rng h b] rng_ok_demo_rng h b
    by (simp add: less_Suc_eq)
qed

end
