(* ===== verification/DE_Selection.thy ===== *)
theory DE_Selection
  imports DE_Model
begin

text \<open>
  Greedy survivor selection of the single-objective \<open>evolve!\<close>: the trial \<open>U\<close> with
  fitness \<open>f(U)\<close> replaces individual \<open>i\<close> and its fitness when its strength
  (fitness times sense) is at least the parent's; ties go to the trial. The update is in
  place: only slot \<open>i\<close> of the population and of the fitness vector changes.
\<close>

definition select :: "nat \<Rightarrow> vec \<Rightarrow> real \<Rightarrow> std_de \<Rightarrow> std_de" where
  "select i U fU de =
     (if strength (so_sense de) (so_fitness de ! i) \<le> strength (so_sense de) fU
      then de\<lparr>pop := (pop de)[i := U], fitness := AVec ((so_fitness de)[i := fU])\<rparr>
      else de)"

lemma is_SoDE_fitness: "is_SoDE de \<Longrightarrow> fitness de = AVec (so_fitness de)"
  by (auto simp: is_SoDE_def so_fitness_def split: prod.splits scalar_or_vec.splits vec_or_mat.splits)

lemma select_frame [simp]:
  "senses (select i U fU de) = senses de"
  "bounds (select i U fU de) = bounds de"
  "options (select i U fU de) = options de"
  "length (pop (select i U fU de)) = length (pop de)"
  by (simp_all add: select_def)

lemma so_sense_select [simp]: "so_sense (select i U fU de) = so_sense de"
  by (simp add: so_sense_def)

lemma so_fitness_select:
  "so_fitness (select i U fU de) =
     (if strength (so_sense de) (so_fitness de ! i) \<le> strength (so_sense de) fU
      then (so_fitness de)[i := fU] else so_fitness de)"
  by (simp add: select_def so_fitness_def)

lemma pop_select:
  "pop (select i U fU de) =
     (if strength (so_sense de) (so_fitness de ! i) \<le> strength (so_sense de) fU
      then (pop de)[i := U] else pop de)"
  by (simp add: select_def)

lemma is_SoDE_select: "is_SoDE de \<Longrightarrow> is_SoDE (select i U fU de)"
  by (auto simp: select_def is_SoDE_def split: prod.splits scalar_or_vec.splits vec_or_mat.splits)

lemma length_so_fitness_select [simp]:
  "length (so_fitness (select i U fU de)) = length (so_fitness de)"
  by (simp add: so_fitness_select)

lemma select_keep:
  "strength (so_sense de) fU < strength (so_sense de) (so_fitness de ! i) \<Longrightarrow> select i U fU de = de"
  by (simp add: select_def)

lemma select_strength_mono:
  assumes "j < length (so_fitness de)"
  shows "strength (so_sense de) (so_fitness de ! j)
           \<le> strength (so_sense de) (so_fitness (select i U fU de) ! j)"
  using assms by (cases "i = j") (auto simp: so_fitness_select)

subsection \<open>Properties of selection\<close>

text \<open>
  C6: selection on slot \<open>i\<close>: if the trial's strength is at least the parent's (ties
  included) the slot holds the trial and its fitness afterwards; if it is strictly
  smaller the evolver is unchanged; every other slot is unchanged in both cases.
\<close>

theorem select_greedy:
  assumes "i < length (pop de)" and "length (so_fitness de) = length (pop de)"
  shows "(strength (so_sense de) (so_fitness de ! i) \<le> strength (so_sense de) fU \<longrightarrow>
            pop (select i U fU de) ! i = U \<and> so_fitness (select i U fU de) ! i = fU)
       \<and> (strength (so_sense de) fU < strength (so_sense de) (so_fitness de ! i) \<longrightarrow>
            select i U fU de = de)
       \<and> (\<forall>j < length (pop de). j \<noteq> i \<longrightarrow>
            pop (select i U fU de) ! j = pop de ! j \<and> so_fitness (select i U fU de) ! j = so_fitness de ! j)"
  using assms by (auto simp: pop_select so_fitness_select select_keep)

lemma select_greedy_witness:
  "0 < length (pop demo_de) \<and> length (so_fitness demo_de) = length (pop demo_de)
   \<and> pop (select 0 [1/2] 4 demo_de) = [[1/2], [2], [-1], [4]]
   \<and> so_fitness (select 0 [1/2] 4 demo_de) = [4, 3, 2, 7]"
proof -
  have h: "0 < length (pop demo_de)" "length (so_fitness demo_de) = length (pop demo_de)"
    by (simp_all add: demo_de_def so_fitness_def)
  show ?thesis using select_greedy[OF h, where U = "[1/2]" and fU = 4] h
    by (simp add: demo_de_def select_def so_fitness_def so_sense_def strength_def)
qed

end
