(* ===== verification/DE_Ranking.thy ===== *)
theory DE_Ranking
  imports DE_Model
begin

text \<open>
  Ranking of a single-objective evolver: \<open>best_individual(de; all)\<close>,
  \<open>best_fitness(de)\<close> and \<open>sort!(de; rev)\<close> (the statistics are in \<open>DE_Stats\<close>).
  The best individual is the first one of maximal strength (Julia's \<open>argmax\<close>);
  \<open>all = true\<close> returns every individual whose strength equals it, in population order.
  \<open>sort!\<close> reorders population and fitness by one stable permutation (Julia's
  \<open>sortperm\<close> is stable), strongest first unless \<open>rev\<close>. Both methods exist only for
  \<open>StdSoDE\<close>: on another evolver Julia raises a \<open>MethodError\<close>; on an empty population
  \<open>argmax\<close> raises an \<open>ArgumentError\<close>.
\<close>

fun argmax_from :: "int \<Rightarrow> real list \<Rightarrow> nat \<Rightarrow> nat \<Rightarrow> real \<Rightarrow> nat" where
  "argmax_from s [] k bi bv = bi"
| "argmax_from s (f # fs) k bi bv =
     (if strength s bv < strength s f then argmax_from s fs (Suc k) k f
      else argmax_from s fs (Suc k) bi bv)"

definition best_index :: "int \<Rightarrow> real list \<Rightarrow> nat" where
  "best_index s fs = (case fs of [] \<Rightarrow> 0 | f # rest \<Rightarrow> argmax_from s rest 1 0 f)"

definition tied_best :: "int \<Rightarrow> real list \<Rightarrow> nat list" where
  "tied_best s fs =
     filter (\<lambda>i. strength s (fs ! i) = strength s (fs ! best_index s fs)) [0..<length fs]"

definition best_individual :: "std_de \<Rightarrow> bool \<Rightarrow> real vec_or_mat result" where
  "best_individual de all =
     (if \<not> is_SoDE de then Inl MethodError
      else if so_fitness de = [] then Inl ArgumentError
      else if all then Inr (AMat (map (\<lambda>i. pop de ! i) (tied_best (so_sense de) (so_fitness de))))
      else Inr (AVec (pop de ! best_index (so_sense de) (so_fitness de))))"

definition best_fitness :: "std_de \<Rightarrow> real result" where
  "best_fitness de =
     (if \<not> is_SoDE de then Inl MethodError
      else if so_fitness de = [] then Inl ArgumentError
      else Inr (so_fitness de ! best_index (so_sense de) (so_fitness de)))"

definition sort_key_of :: "bool \<Rightarrow> int \<Rightarrow> vec \<times> real \<Rightarrow> real" where
  "sort_key_of rv s p = (if rv then strength s (snd p) else - strength s (snd p))"

definition sort_de :: "bool \<Rightarrow> std_de \<Rightarrow> std_de result" where
  "sort_de rv de =
     (if \<not> is_SoDE de then Inl MethodError
      else let ps = sort_key (sort_key_of rv (so_sense de)) (zip (pop de) (so_fitness de))
           in Inr (de\<lparr>pop := map fst ps, fitness := AVec (map snd ps)\<rparr>))"

subsection \<open>The first maximum\<close>

lemma argmax_from_correct:
  assumes "bi < length p" and "p ! bi = bv"
    and "\<forall>j < length p. strength s (p ! j) \<le> strength s bv"
    and "\<forall>j < bi. strength s (p ! j) < strength s bv"
  shows "argmax_from s fs (length p) bi bv < length (p @ fs)
         \<and> (\<forall>j < length (p @ fs). strength s ((p @ fs) ! j)
                                  \<le> strength s ((p @ fs) ! argmax_from s fs (length p) bi bv))
         \<and> (\<forall>j < argmax_from s fs (length p) bi bv.
              strength s ((p @ fs) ! j) < strength s ((p @ fs) ! argmax_from s fs (length p) bi bv))"
  using assms
proof (induction fs arbitrary: p bi bv)
  case Nil
  then show ?case by simp
next
  case (Cons f fs)
  show ?case
  proof (cases "strength s bv < strength s f")
    case True
    have "length p < length (p @ [f])" "(p @ [f]) ! length p = f"
      "\<forall>j < length (p @ [f]). strength s ((p @ [f]) ! j) \<le> strength s f"
      "\<forall>j < length p. strength s ((p @ [f]) ! j) < strength s f"
      using Cons.prems True by (auto simp: nth_append less_Suc_eq)
    from Cons.IH[OF this] True show ?thesis by simp
  next
    case False
    have "bi < length (p @ [f])" "(p @ [f]) ! bi = bv"
      "\<forall>j < length (p @ [f]). strength s ((p @ [f]) ! j) \<le> strength s bv"
      "\<forall>j < bi. strength s ((p @ [f]) ! j) < strength s bv"
      using Cons.prems False by (auto simp: nth_append less_Suc_eq)
    from Cons.IH[OF this] False show ?thesis by simp
  qed
qed

lemma best_index_correct:
  assumes "fs \<noteq> []"
  shows "best_index s fs < length fs
         \<and> (\<forall>j < length fs. strength s (fs ! j) \<le> strength s (fs ! best_index s fs))
         \<and> (\<forall>j < best_index s fs. strength s (fs ! j) < strength s (fs ! best_index s fs))"
proof -
  obtain f rest where fs: "fs = f # rest" using assms by (cases fs) auto
  have "0 < length [f]" "[f] ! 0 = f" "\<forall>j < length [f]. strength s ([f] ! j) \<le> strength s f"
    "\<forall>j < 0. strength s ([f] ! j) < strength s f" by auto
  from argmax_from_correct[OF this, of rest] show ?thesis
    by (simp add: fs best_index_def)
qed


subsection \<open>Ranking lemmas\<close>

lemma so_fitness_sort_de:
  assumes "is_SoDE de" and "sort_de rv de = Inr de'"
  shows "is_SoDE de'" "so_sense de' = so_sense de"
    "pop de' = map fst (sort_key (sort_key_of rv (so_sense de)) (zip (pop de) (so_fitness de)))"
    "so_fitness de' = map snd (sort_key (sort_key_of rv (so_sense de)) (zip (pop de) (so_fitness de)))"
  using assms by (auto simp: sort_de_def Let_def is_SoDE_def so_sense_def so_fitness_def
      split: prod.splits scalar_or_vec.splits vec_or_mat.splits)

lemma sort_de_sorted:
  assumes "is_SoDE de" and "sort_de False de = Inr de'"
  shows "sorted (map (\<lambda>f. - strength (so_sense de') f) (so_fitness de'))"
proof -
  let ?ps = "sort_key (sort_key_of False (so_sense de)) (zip (pop de) (so_fitness de))"
  have "sorted (map (\<lambda>p. - strength (so_sense de) (snd p)) ?ps)"
    using sorted_sort_key[of "sort_key_of False (so_sense de)" "zip (pop de) (so_fitness de)"]
    unfolding sort_key_of_def by simp
  then show ?thesis using so_fitness_sort_de[OF assms] by (simp add: comp_def)
qed

lemma sort_de_Inr:
  "is_SoDE de \<Longrightarrow> sort_de rv de =
     Inr (de\<lparr>pop := map fst (sort_key (sort_key_of rv (so_sense de)) (zip (pop de) (so_fitness de))),
            fitness := AVec (map snd (sort_key (sort_key_of rv (so_sense de)) (zip (pop de) (so_fitness de))))\<rparr>)"
  by (simp add: sort_de_def Let_def)

lemma best_strength_Max:
  assumes "fs \<noteq> []"
  shows "strength s (fs ! best_index s fs) = Max (strength s ` set fs)"
proof -
  note b = best_index_correct[OF assms, of s]
  show ?thesis
  proof (rule Max_eqI[symmetric])
    show "finite (strength s ` set fs)" by simp
    show "y \<le> strength s (fs ! best_index s fs)" if "y \<in> strength s ` set fs" for y
      using that b by (auto simp: in_set_conv_nth)
    show "strength s (fs ! best_index s fs) \<in> strength s ` set fs" using b by simp
  qed
qed

lemma strength_inj: "sense_ok s \<Longrightarrow> strength s a = strength s b \<Longrightarrow> a = b"
  by (auto simp: sense_ok_def strength_def)

lemma filter_upt_first:
  assumes "b < n" and "P b" and "\<forall>j < b. \<not> P j"
  shows "filter P [0..<n] = b # filter P [Suc b..<n]"
proof -
  have "[0..<n] = [0..<b] @ [b..<n]" using assms(1) upt_add_eq_append[of 0 b "n - b"] by simp
  then have "[0..<n] = [0..<b] @ b # [Suc b..<n]" using assms(1) by (simp add: upt_conv_Cons)
  moreover have "filter P [0..<b] = []" using assms(3) by (auto simp: filter_empty_conv)
  ultimately show ?thesis using assms(2) by simp
qed

subsection \<open>Properties of ranking\<close>

text \<open>
  C8: after sort!(de) with rev = false, the best individual is the first column and the best
  fitness is the first fitness entry.
\<close>

theorem sort_best_first:
  assumes "is_SoDE de" and "length (so_fitness de) = length (pop de)" and "pop de \<noteq> []"
    and "sort_de False de = Inr de'"
  shows "best_individual de' False = Inr (AVec (hd (pop de')))
       \<and> best_fitness de' = Inr (hd (so_fitness de'))"
proof -
  note s = so_fitness_sort_de[OF assms(1,4)]
  let ?fs = "so_fitness de'" and ?s = "so_sense de'"
  have len: "length ?fs = length (pop de)" "length (pop de') = length (pop de)"
    using s assms(2) by simp_all
  then have ne: "?fs \<noteq> []" using assms(3) by auto
  have srt: "sorted (map (\<lambda>f. - strength ?s f) ?fs)" by (rule sort_de_sorted[OF assms(1,4)])
  have top: "strength ?s (?fs ! j) \<le> strength ?s (?fs ! 0)" if "j < length ?fs" for j
  proof -
    have "0 < length ?fs" using ne by simp
    then show ?thesis using sorted_nth_mono[OF srt, of 0 j] that by simp
  qed
  note b = best_index_correct[OF ne, of ?s]
  have "best_index ?s ?fs = 0"
  proof (rule ccontr)
    assume "best_index ?s ?fs \<noteq> 0"
    then have "strength ?s (?fs ! 0) < strength ?s (?fs ! best_index ?s ?fs)" using b by auto
    with top[of "best_index ?s ?fs"] b show False by simp
  qed
  moreover have "pop de' \<noteq> []" using len assms(3) by auto
  ultimately show ?thesis using s(1) ne
    by (simp add: best_individual_def best_fitness_def hd_conv_nth)
qed

lemma sort_best_first_witness:
  "is_SoDE demo_de \<and> length (so_fitness demo_de) = length (pop demo_de) \<and> pop demo_de \<noteq> []
   \<and> sort_de False demo_de = Inr (demo_de\<lparr>pop := [[-1], [2], [1], [4]], fitness := AVec [2, 3, 5, 7]\<rparr>)
   \<and> best_individual (demo_de\<lparr>pop := [[-1], [2], [1], [4]], fitness := AVec [2, 3, 5, 7]\<rparr>) False
       = Inr (AVec [-1])"
proof -
  have h: "is_SoDE demo_de" "length (so_fitness demo_de) = length (pop demo_de)" "pop demo_de \<noteq> []"
    by (simp_all add: demo_de_def is_SoDE_def so_fitness_def)
  have srt: "sort_de False demo_de = Inr (demo_de\<lparr>pop := [[-1], [2], [1], [4]], fitness := AVec [2, 3, 5, 7]\<rparr>)"
    by (simp add: demo_de_def sort_de_def is_SoDE_def so_fitness_def so_sense_def sort_key_of_def strength_def)
  show ?thesis using sort_best_first[OF h srt] h srt by (simp add: demo_de_def)
qed

text \<open>
  C9: the best individual (all = false) and the best fitness come from the same index b: b is a position of maximal strength, and every earlier position is strictly weaker, so ties go to the first individual in population order.
\<close>

theorem best_individual_first_max:
  assumes "is_SoDE de" and "so_fitness de \<noteq> []" and "length (so_fitness de) = length (pop de)"
  shows "\<exists>b. best_individual de False = Inr (AVec (pop de ! b)) \<and> best_fitness de = Inr (so_fitness de ! b)
           \<and> b < length (pop de)
           \<and> (\<forall>j < length (pop de). strength (so_sense de) (so_fitness de ! j)
                                      \<le> strength (so_sense de) (so_fitness de ! b))
           \<and> (\<forall>j < b. strength (so_sense de) (so_fitness de ! j)
                        < strength (so_sense de) (so_fitness de ! b))"
  using best_index_correct[OF assms(2), of "so_sense de"] assms
  by (auto simp: best_individual_def best_fitness_def)

lemma best_individual_first_max_witness:
  "is_SoDE demo_de \<and> so_fitness demo_de \<noteq> [] \<and> length (so_fitness demo_de) = length (pop demo_de)
   \<and> best_individual demo_de False = Inr (AVec [-1]) \<and> best_fitness demo_de = Inr 2"
proof -
  have h: "is_SoDE demo_de" "so_fitness demo_de \<noteq> []" "length (so_fitness demo_de) = length (pop demo_de)"
    by (simp_all add: demo_de_def is_SoDE_def so_fitness_def)
  show ?thesis using best_individual_first_max[OF h] h
    by (simp add: demo_de_def best_individual_def best_fitness_def best_index_def so_fitness_def
        so_sense_def strength_def is_SoDE_def)
qed

text \<open>
  C10: with all = true the result is the individuals at exactly the positions of maximal strength (ties under exact equality of strength), each once, in population order.
\<close>

theorem best_individual_all_ties:
  assumes "is_SoDE de" and "so_fitness de \<noteq> []" and "length (so_fitness de) = length (pop de)"
  shows "\<exists>idx. best_individual de True = Inr (AMat (map (\<lambda>i. pop de ! i) idx))
           \<and> sorted idx \<and> distinct idx
           \<and> set idx = {i. i < length (pop de) \<and> (\<forall>j < length (pop de).
                 strength (so_sense de) (so_fitness de ! j) \<le> strength (so_sense de) (so_fitness de ! i))}"
proof -
  let ?s = "so_sense de" and ?fs = "so_fitness de"
  note b = best_index_correct[OF assms(2), of ?s]
  have "set (tied_best ?s ?fs) = {i. i < length (pop de) \<and> (\<forall>j < length (pop de).
          strength ?s (?fs ! j) \<le> strength ?s (?fs ! i))}"
  proof (intro set_eqI iffI)
    fix i assume "i \<in> set (tied_best ?s ?fs)"
    then show "i \<in> {i. i < length (pop de) \<and> (\<forall>j < length (pop de). strength ?s (?fs ! j) \<le> strength ?s (?fs ! i))}"
      using b assms(3) by (auto simp: tied_best_def)
  next
    fix i assume "i \<in> {i. i < length (pop de) \<and> (\<forall>j < length (pop de). strength ?s (?fs ! j) \<le> strength ?s (?fs ! i))}"
    then have i: "i < length ?fs" and le: "\<forall>j < length ?fs. strength ?s (?fs ! j) \<le> strength ?s (?fs ! i)"
      using assms(3) by auto
    have "strength ?s (?fs ! i) = strength ?s (?fs ! best_index ?s ?fs)"
      using le b i by (meson order.antisym)
    with i show "i \<in> set (tied_best ?s ?fs)" by (simp add: tied_best_def)
  qed
  moreover have "sorted (tied_best ?s ?fs)" "distinct (tied_best ?s ?fs)"
    by (simp_all add: tied_best_def sorted_filter[of id, simplified])
  ultimately show ?thesis using assms(1,2) by (auto simp: best_individual_def)
qed

lemma best_individual_all_ties_witness:
  "is_SoDE (demo_de\<lparr>fitness := AVec [2, 3, 2, 7]\<rparr>)
   \<and> so_fitness (demo_de\<lparr>fitness := AVec [2, 3, 2, 7]\<rparr>) \<noteq> []
   \<and> length (so_fitness (demo_de\<lparr>fitness := AVec [2, 3, 2, 7]\<rparr>))
       = length (pop (demo_de\<lparr>fitness := AVec [2, 3, 2, 7]\<rparr>))
   \<and> best_individual (demo_de\<lparr>fitness := AVec [2, 3, 2, 7]\<rparr>) True = Inr (AMat [[1], [-1]])"
proof -
  have h: "is_SoDE (demo_de\<lparr>fitness := AVec [2, 3, 2, 7]\<rparr>)"
    "so_fitness (demo_de\<lparr>fitness := AVec [2, 3, 2, 7]\<rparr>) \<noteq> []"
    "length (so_fitness (demo_de\<lparr>fitness := AVec [2, 3, 2, 7]\<rparr>))
       = length (pop (demo_de\<lparr>fitness := AVec [2, 3, 2, 7]\<rparr>))"
    by (simp_all add: demo_de_def is_SoDE_def so_fitness_def)
  show ?thesis using best_individual_all_ties[OF h] h
    by (simp add: demo_de_def best_individual_def tied_best_def best_index_def so_fitness_def
        so_sense_def strength_def is_SoDE_def upt_conv_Cons)
qed

text \<open>
  C21: sort! does not change the best fitness, nor the senses, bounds and options of the evolver.
\<close>

theorem sort_de_keeps_best_fitness:
  assumes "is_SoDE de" and "sense_ok (so_sense de)" and "length (so_fitness de) = length (pop de)"
    and "sort_de rv de = Inr de'"
  shows "best_fitness de' = best_fitness de \<and> senses de' = senses de \<and> bounds de' = bounds de
         \<and> options de' = options de"
proof -
  note s = so_fitness_sort_de[OF assms(1,4)]
  let ?ps = "sort_key (sort_key_of rv (so_sense de)) (zip (pop de) (so_fitness de))"
  have m: "mset (zip (pop de') (so_fitness de')) = mset (zip (pop de) (so_fitness de))"
    using s by (simp add: zip_map_fst_snd)
  have "mset (so_fitness de') = mset (so_fitness de)"
  proof -
    have "mset (map snd (zip (pop de') (so_fitness de'))) = mset (map snd (zip (pop de) (so_fitness de)))"
      using m by (metis mset_map)
    moreover have "length (pop de') = length (so_fitness de')" using s by simp
    ultimately show ?thesis using assms(3) by simp
  qed
  then have set_eq: "set (so_fitness de') = set (so_fitness de)" by (metis set_mset_mset)
  have cfg: "senses de' = senses de \<and> bounds de' = bounds de \<and> options de' = options de"
    using assms(1,4) by (auto simp: sort_de_def Let_def)
  show ?thesis
  proof (cases "so_fitness de = []")
    case True
    then have "so_fitness de' = []" using set_eq by simp
    then show ?thesis using True s(1) assms(1) cfg by (simp add: best_fitness_def)
  next
    case False
    then have F': "so_fitness de' \<noteq> []" using set_eq by auto
    have "strength (so_sense de) (so_fitness de' ! best_index (so_sense de) (so_fitness de'))
        = strength (so_sense de) (so_fitness de ! best_index (so_sense de) (so_fitness de))"
      using best_strength_Max[OF F'] best_strength_Max[OF False] set_eq by simp
    then have "so_fitness de' ! best_index (so_sense de) (so_fitness de')
        = so_fitness de ! best_index (so_sense de) (so_fitness de)"
      by (rule strength_inj[OF assms(2)])
    then show ?thesis using False F' s(1,2) assms(1) cfg by (simp add: best_fitness_def)
  qed
qed

lemma sort_de_keeps_best_fitness_witness:
  "is_SoDE demo_de \<and> sense_ok (so_sense demo_de) \<and> length (so_fitness demo_de) = length (pop demo_de)
   \<and> sort_de True demo_de = Inr (demo_de\<lparr>pop := [[4], [1], [2], [-1]], fitness := AVec [7, 5, 3, 2]\<rparr>)
   \<and> best_fitness (demo_de\<lparr>pop := [[4], [1], [2], [-1]], fitness := AVec [7, 5, 3, 2]\<rparr>) = best_fitness demo_de"
proof -
  have h: "is_SoDE demo_de" "sense_ok (so_sense demo_de)" "length (so_fitness demo_de) = length (pop demo_de)"
    by (simp_all add: demo_de_def is_SoDE_def sense_ok_def so_sense_def so_fitness_def)
  have srt: "sort_de True demo_de = Inr (demo_de\<lparr>pop := [[4], [1], [2], [-1]], fitness := AVec [7, 5, 3, 2]\<rparr>)"
    by (simp add: demo_de_def sort_de_def is_SoDE_def so_fitness_def so_sense_def sort_key_of_def strength_def)
  show ?thesis using sort_de_keeps_best_fitness[OF h srt] h srt by simp
qed

text \<open>
  With rev = true, sort! orders from worst to best, so the last fitness is the best one.
\<close>

theorem sort_de_rev_best_last:
  assumes "is_SoDE de" and "sort_de True de = Inr de'" and "so_fitness de' \<noteq> []"
  shows "\<forall>j < length (so_fitness de'). strength (so_sense de') (so_fitness de' ! j)
            \<le> strength (so_sense de') (last (so_fitness de'))"
proof -
  note s = so_fitness_sort_de[OF assms(1,2)]
  let ?ps = "sort_key (sort_key_of True (so_sense de)) (zip (pop de) (so_fitness de))"
  have "sorted (map (\<lambda>p. strength (so_sense de) (snd p)) ?ps)"
    using sorted_sort_key[of "sort_key_of True (so_sense de)" "zip (pop de) (so_fitness de)"]
    unfolding sort_key_of_def by simp
  then have srt: "sorted (map (strength (so_sense de')) (so_fitness de'))"
    using s by (simp add: comp_def)
  show ?thesis
  proof (intro allI impI)
    fix j assume j: "j < length (so_fitness de')"
    have "last (so_fitness de') = so_fitness de' ! (length (so_fitness de') - 1)"
      using assms(3) by (simp add: last_conv_nth)
    then show "strength (so_sense de') (so_fitness de' ! j) \<le> strength (so_sense de') (last (so_fitness de'))"
      using sorted_nth_mono[OF srt, of j "length (so_fitness de') - 1"] j by simp
  qed
qed

lemma sort_de_rev_best_last_witness:
  "is_SoDE demo_de \<and> sort_de True demo_de = Inr (demo_de\<lparr>pop := [[4], [1], [2], [-1]], fitness := AVec [7, 5, 3, 2]\<rparr>)
   \<and> so_fitness (demo_de\<lparr>pop := [[4], [1], [2], [-1]], fitness := AVec [7, 5, 3, 2]\<rparr>) \<noteq> []
   \<and> last (so_fitness (demo_de\<lparr>pop := [[4], [1], [2], [-1]], fitness := AVec [7, 5, 3, 2]\<rparr>)) = 2"
proof -
  have h: "is_SoDE demo_de" by (simp add: demo_de_def is_SoDE_def)
  have srt: "sort_de True demo_de = Inr (demo_de\<lparr>pop := [[4], [1], [2], [-1]], fitness := AVec [7, 5, 3, 2]\<rparr>)"
    by (simp add: demo_de_def sort_de_def is_SoDE_def so_fitness_def so_sense_def sort_key_of_def strength_def)
  have ne: "so_fitness (demo_de\<lparr>pop := [[4], [1], [2], [-1]], fitness := AVec [7, 5, 3, 2]\<rparr>) \<noteq> []"
    by (simp add: so_fitness_def)
  show ?thesis using sort_de_rev_best_last[OF h srt ne] h srt ne by (simp add: so_fitness_def)
qed

text \<open>
  On a nonempty single-objective evolver, best_individual(de) returns the first column of the matrix best_individual(de, all = true).
\<close>

theorem best_individual_heads_ties:
  assumes "is_SoDE de" and "so_fitness de \<noteq> []" and "length (so_fitness de) = length (pop de)"
  shows "\<exists>x xs. best_individual de False = Inr (AVec x) \<and> best_individual de True = Inr (AMat (x # xs))"
proof -
  let ?s = "so_sense de" and ?fs = "so_fitness de"
  let ?b = "best_index ?s ?fs"
  note b = best_index_correct[OF assms(2), of ?s]
  have "tied_best ?s ?fs = ?b # filter (\<lambda>i. strength ?s (?fs ! i) = strength ?s (?fs ! ?b)) [Suc ?b..<length ?fs]"
    unfolding tied_best_def by (rule filter_upt_first) (use b in auto)
  then show ?thesis using assms(1,2) by (simp add: best_individual_def)
qed

lemma best_individual_heads_ties_witness:
  "is_SoDE (demo_de\<lparr>fitness := AVec [2, 3, 2, 7]\<rparr>)
   \<and> so_fitness (demo_de\<lparr>fitness := AVec [2, 3, 2, 7]\<rparr>) \<noteq> []
   \<and> length (so_fitness (demo_de\<lparr>fitness := AVec [2, 3, 2, 7]\<rparr>))
       = length (pop (demo_de\<lparr>fitness := AVec [2, 3, 2, 7]\<rparr>))
   \<and> best_individual (demo_de\<lparr>fitness := AVec [2, 3, 2, 7]\<rparr>) False = Inr (AVec [1])"
proof -
  have h: "is_SoDE (demo_de\<lparr>fitness := AVec [2, 3, 2, 7]\<rparr>)"
    "so_fitness (demo_de\<lparr>fitness := AVec [2, 3, 2, 7]\<rparr>) \<noteq> []"
    "length (so_fitness (demo_de\<lparr>fitness := AVec [2, 3, 2, 7]\<rparr>))
       = length (pop (demo_de\<lparr>fitness := AVec [2, 3, 2, 7]\<rparr>))"
    by (simp_all add: demo_de_def is_SoDE_def so_fitness_def)
  show ?thesis using best_individual_heads_ties[OF h] h
    by (simp add: demo_de_def best_individual_def best_index_def so_fitness_def so_sense_def
        strength_def is_SoDE_def)
qed

text \<open>
  C20: sort! is the stable sort of the spec and nothing else: it returns the evolver
  rearranged as the pairs ps exactly when ps is a permutation of the (individual, fitness)
  pairs that is sorted by the key (strength, or its opposite unless rev) and keeps the
  order of pairs of equal key. In particular sorting a sorted evolver returns it unchanged.
\<close>

theorem sort_de_stable_sort_spec:
  assumes "is_SoDE de"
  shows "sort_de rv de = Inr (de\<lparr>pop := map fst ps, fitness := AVec (map snd ps)\<rparr>) \<longleftrightarrow>
           mset ps = mset (zip (pop de) (so_fitness de))
         \<and> sorted (map (sort_key_of rv (so_sense de)) ps)
         \<and> (\<forall>k. filter (\<lambda>p. sort_key_of rv (so_sense de) p = k) ps
                = filter (\<lambda>p. sort_key_of rv (so_sense de) p = k) (zip (pop de) (so_fitness de)))"
  (is "?lhs \<longleftrightarrow> ?rhs")
proof
  let ?f = "sort_key_of rv (so_sense de)" and ?xs = "zip (pop de) (so_fitness de)"
  assume ?lhs
  then have eq: "de\<lparr>pop := map fst (sort_key ?f ?xs), fitness := AVec (map snd (sort_key ?f ?xs))\<rparr>
           = de\<lparr>pop := map fst ps, fitness := AVec (map snd ps)\<rparr>"
    using sort_de_Inr[OF assms, of rv] by simp
  have "map fst (sort_key ?f ?xs) = map fst ps" using arg_cong[OF eq, of pop] by simp
  moreover have "map snd (sort_key ?f ?xs) = map snd ps" using arg_cong[OF eq, of fitness] by simp
  ultimately have "ps = sort_key ?f ?xs" by (metis zip_map_fst_snd)
  then show ?rhs by (simp add: sort_key_stable)
next
  let ?f = "sort_key_of rv (so_sense de)" and ?xs = "zip (pop de) (so_fitness de)"
  assume r: ?rhs
  have "sort_key ?f ?xs = ps"
  proof (rule properties_for_sort_key)
    show "mset ps = mset ?xs" using r by simp
    show "sorted (map ?f ps)" using r by simp
    show "filter (\<lambda>x. ?f k = ?f x) ps = filter (\<lambda>x. ?f k = ?f x) ?xs" for k
    proof -
      have "filter (\<lambda>p. ?f p = ?f k) ps = filter (\<lambda>p. ?f p = ?f k) ?xs" using r by blast
      then show ?thesis by (simp only: eq_commute[of "?f k"])
    qed
  qed
  then show ?lhs using sort_de_Inr[OF assms, of rv] by simp
qed

lemma sort_de_stable_sort_spec_witness:
  "is_SoDE demo_de
   \<and> sort_de False demo_de =
       Inr (demo_de\<lparr>pop := map fst ([([-1], 2), ([2], 3), ([1], 5), ([4], 7)] :: (vec \<times> real) list),
                      fitness := AVec (map snd ([([-1], 2), ([2], 3), ([1], 5), ([4], 7)] :: (vec \<times> real) list))\<rparr>)
   \<and> mset ([([-1], 2), ([2], 3), ([1], 5), ([4], 7)] :: (vec \<times> real) list) = mset (zip (pop demo_de) (so_fitness demo_de))"
proof -
  have h: "is_SoDE demo_de" by (simp add: demo_de_def is_SoDE_def)
  let ?ps = "[([-1], 2), ([2], 3), ([1], 5), ([4], (7::real))] :: (vec \<times> real) list"
  have srt: "sort_de False demo_de = Inr (demo_de\<lparr>pop := map fst ?ps, fitness := AVec (map snd ?ps)\<rparr>)"
    by (simp add: demo_de_def sort_de_def is_SoDE_def so_fitness_def so_sense_def sort_key_of_def strength_def)
  have "mset ?ps = mset (zip (pop demo_de) (so_fitness demo_de))"
    using iffD1[OF sort_de_stable_sort_spec[OF h, of False ?ps] srt] by (rule conjunct1)
  then show ?thesis using h srt by (intro conjI)
qed

end
