(* ===== verification/DE_Stats.thy ===== *)
theory DE_Stats
  imports DE_Ranking
begin

text \<open>
  The fitness statistics that \<open>evolve!\<close> reports after each generation
  (\<open>stats = [:best, :avg, :max, :min, :std]\<close>, default \<open>[:best, :avg]\<close>), computed
  over the post-generation fitness of a single-objective evolver. Like the ranking
  utilities they exist only for \<open>StdSoDE\<close> (a \<open>MethodError\<close> otherwise) and need a
  nonempty fitness (an \<open>ArgumentError\<close> otherwise). Computing them never changes the
  evolver; displaying them (\<open>stats_fmt\<close>) is output only and not modelled.
\<close>

datatype stat = StatBest | StatAvg | StatMax | StatMin | StatStd

definition list_max :: "real list \<Rightarrow> real" where
  "list_max fs = fold max (tl fs) (hd fs)"

definition list_min :: "real list \<Rightarrow> real" where
  "list_min fs = fold min (tl fs) (hd fs)"

definition mean :: "real list \<Rightarrow> real" where
  "mean fs = sum_list fs / real (length fs)"

text \<open>Julia's \<open>std\<close> is the corrected sample standard deviation (divisor \<open>n - 1\<close>).\<close>

definition std_dev :: "real list \<Rightarrow> real" where
  "std_dev fs = sqrt (sum_list (map (\<lambda>x. (x - mean fs)\<^sup>2) fs) / real (length fs - 1))"

fun stat_value :: "int \<Rightarrow> real list \<Rightarrow> stat \<Rightarrow> real" where
  "stat_value s fs StatBest = fs ! best_index s fs"
| "stat_value s fs StatAvg = mean fs"
| "stat_value s fs StatMax = list_max fs"
| "stat_value s fs StatMin = list_min fs"
| "stat_value s fs StatStd = std_dev fs"

definition fitness_stats :: "stat list \<Rightarrow> std_de \<Rightarrow> real list result" where
  "fitness_stats sts de =
     (if \<not> is_SoDE de then Inl MethodError
      else if so_fitness de = [] then Inl ArgumentError
      else Inr (map (stat_value (so_sense de) (so_fitness de)) sts))"

subsection \<open>Order of the statistics\<close>

lemma list_max_eq_Max: "fs \<noteq> [] \<Longrightarrow> list_max fs = Max (set fs)"
  by (cases fs) (simp_all add: list_max_def Max.set_eq_fold[symmetric])

lemma list_min_eq_Min: "fs \<noteq> [] \<Longrightarrow> list_min fs = Min (set fs)"
  by (cases fs) (simp_all add: list_min_def Min.set_eq_fold[symmetric])

lemma mean_le_list_max:
  assumes "fs \<noteq> []" shows "mean fs \<le> list_max fs"
proof -
  have "sum_list fs \<le> sum_list (map (\<lambda>_. list_max fs) fs)"
    using sum_list_mono[of fs id "\<lambda>_. list_max fs"] assms by (simp add: list_max_eq_Max)
  then have "sum_list fs \<le> real (length fs) * list_max fs" by (simp add: sum_list_triv)
  then show ?thesis using assms by (simp add: mean_def divide_le_eq mult.commute)
qed

lemma list_min_le_mean:
  assumes "fs \<noteq> []" shows "list_min fs \<le> mean fs"
proof -
  have "sum_list (map (\<lambda>_. list_min fs) fs) \<le> sum_list fs"
    using sum_list_mono[of fs "\<lambda>_. list_min fs" id] assms by (simp add: list_min_eq_Min)
  then have "real (length fs) * list_min fs \<le> sum_list fs" by (simp add: sum_list_triv)
  then show ?thesis using assms by (simp add: mean_def le_divide_eq mult.commute)
qed

lemma best_is_max:
  assumes "fs \<noteq> []" shows "fs ! best_index 1 fs = list_max fs"
proof -
  note b = best_index_correct[OF assms, of 1]
  have "\<forall>x \<in> set fs. x \<le> fs ! best_index 1 fs"
    using b by (auto simp: strength_def in_set_conv_nth)
  moreover have "fs ! best_index 1 fs \<in> set fs" using b by simp
  ultimately show ?thesis using assms by (simp add: list_max_eq_Max) (metis Max_eqI finite_set)
qed

lemma best_is_min:
  assumes "fs \<noteq> []" shows "fs ! best_index (-1) fs = list_min fs"
proof -
  note b = best_index_correct[OF assms, of "-1"]
  have "\<forall>x \<in> set fs. fs ! best_index (-1) fs \<le> x"
    using b by (auto simp: strength_def in_set_conv_nth)
  moreover have "fs ! best_index (-1) fs \<in> set fs" using b by simp
  ultimately show ?thesis using assms by (simp add: list_min_eq_Min) (metis Min_eqI finite_set)
qed

lemma mean_strength_le_best:
  assumes "fs \<noteq> []" and "sense_ok s"
  shows "strength s (mean fs) \<le> strength s (fs ! best_index s fs)"
  using assms mean_le_list_max[OF assms(1)] list_min_le_mean[OF assms(1)]
    best_is_max[OF assms(1)] best_is_min[OF assms(1)]
  by (auto simp: sense_ok_def strength_def)

lemma mean_const: "xs \<noteq> [] \<Longrightarrow> \<forall>x \<in> set xs. x = c \<Longrightarrow> mean xs = c"
proof -
  assume ne: "xs \<noteq> []" and c: "\<forall>x \<in> set xs. x = c"
  then have "xs = replicate (length xs) c" by (simp add: replicate_length_same)
  then have "sum_list xs = real (length xs) * c" by (metis sum_list_replicate)
  then show ?thesis using ne by (simp add: mean_def)
qed

lemma std_dev_nonneg: "0 \<le> std_dev fs"
  unfolding std_dev_def by (intro real_sqrt_ge_zero divide_nonneg_nonneg sum_list_nonneg) auto

lemma std_dev_zero_iff:
  assumes "2 \<le> length fs"
  shows "std_dev fs = 0 \<longleftrightarrow> (\<forall>x \<in> set fs. x = hd fs)"
proof -
  have d: "0 < real (length fs - 1)" using assms by simp
  have "std_dev fs = 0 \<longleftrightarrow> sum_list (map (\<lambda>x. (x - mean fs)\<^sup>2) fs) = 0"
    using d by (simp add: std_dev_def)
  also have "\<dots> \<longleftrightarrow> (\<forall>x \<in> set fs. x = mean fs)"
    by (subst sum_list_nonneg_eq_0_iff) auto
  also have "\<dots> \<longleftrightarrow> (\<forall>x \<in> set fs. x = hd fs)"
  proof
    assume a: "\<forall>x \<in> set fs. x = mean fs"
    then show "\<forall>x \<in> set fs. x = hd fs" using assms by (cases fs) auto
  next
    assume a: "\<forall>x \<in> set fs. x = hd fs"
    then have "mean fs = hd fs" using assms by (intro mean_const) auto
    then show "\<forall>x \<in> set fs. x = mean fs" using a by simp
  qed
  finally show ?thesis .
qed

lemma list_min_le_elem: "x \<in> set fs \<Longrightarrow> list_min fs \<le> x"
  using list_min_eq_Min[of fs] by (cases "fs = []") auto

lemma elem_le_list_max: "x \<in> set fs \<Longrightarrow> x \<le> list_max fs"
  using list_max_eq_Max[of fs] by (cases "fs = []") auto

lemma sum_sq_shift:
  "(\<Sum>x\<leftarrow>xs. (x - c)\<^sup>2) = (\<Sum>x\<leftarrow>xs. x\<^sup>2) - 2 * c * sum_list xs + real (length xs) * c\<^sup>2"
  by (induction xs) (simp_all add: power2_diff algebra_simps)

lemma sum_pairwise_sq:
  "(\<Sum>x\<leftarrow>xs. \<Sum>y\<leftarrow>ys. (x - y)\<^sup>2)
   = real (length ys) * (\<Sum>x\<leftarrow>xs. x\<^sup>2) - 2 * sum_list xs * sum_list ys
     + real (length xs) * (\<Sum>y\<leftarrow>ys. y\<^sup>2)"
proof (induction xs)
  case (Cons a xs)
  have "(\<Sum>y\<leftarrow>ys. (a - y)\<^sup>2) = real (length ys) * a\<^sup>2 - 2 * a * sum_list ys + (\<Sum>y\<leftarrow>ys. y\<^sup>2)"
    using sum_sq_shift[where xs = ys and c = a] by (simp add: power2_commute algebra_simps)
  then show ?case using Cons by (simp add: algebra_simps)
qed simp

lemma std_dev_pairwise:
  assumes "2 \<le> length fs"
  shows "std_dev fs = sqrt ((\<Sum>x\<leftarrow>fs. \<Sum>y\<leftarrow>fs. (x - y)\<^sup>2)
                            / (2 * real (length fs) * real (length fs - 1)))"
proof -
  have n: "real (length fs) \<noteq> 0" using assms by auto
  have "(\<Sum>x\<leftarrow>fs. \<Sum>y\<leftarrow>fs. (x - y)\<^sup>2) = 2 * real (length fs) * (\<Sum>x\<leftarrow>fs. (x - mean fs)\<^sup>2)"
    unfolding sum_pairwise_sq sum_sq_shift using n by (simp add: mean_def field_simps power2_eq_square)
  then show ?thesis using n by (simp add: std_dev_def)
qed

lemma std_dev_le_range:
  assumes "2 \<le> length fs"
  shows "std_dev fs \<le> (list_max fs - list_min fs) * sqrt (real (length fs) / real (length fs - 1))"
proof -
  let ?lo = "list_min fs" and ?hi = "list_max fs" and ?m = "mean fs" and ?n = "length fs"
  have ne: "fs \<noteq> []" using assms by auto
  have m: "?lo \<le> ?m" "?m \<le> ?hi" using list_min_le_mean[OF ne] mean_le_list_max[OF ne] by auto
  have sq: "(x - ?m)\<^sup>2 \<le> (?hi - ?lo)\<^sup>2" if "x \<in> set fs" for x
  proof -
    have "?lo \<le> x" "x \<le> ?hi" using that list_min_le_elem elem_le_list_max by auto
    then have "\<bar>x - ?m\<bar> \<le> \<bar>?hi - ?lo\<bar>" using m by linarith
    then show ?thesis by (simp add: abs_le_square_iff)
  qed
  have "sum_list (map (\<lambda>x. (x - ?m)\<^sup>2) fs) \<le> sum_list (map (\<lambda>_. (?hi - ?lo)\<^sup>2) fs)"
    by (rule sum_list_mono) (use sq in auto)
  then have s: "sum_list (map (\<lambda>x. (x - ?m)\<^sup>2) fs) \<le> real ?n * (?hi - ?lo)\<^sup>2"
    by (simp add: sum_list_triv)
  have d: "0 < real (?n - 1)" using assms by simp
  have "std_dev fs \<le> sqrt (real ?n * (?hi - ?lo)\<^sup>2 / real (?n - 1))"
    unfolding std_dev_def using s d by (simp add: divide_right_mono)
  also have "\<dots> = \<bar>?hi - ?lo\<bar> * sqrt (real ?n / real (?n - 1))"
    by (simp add: real_sqrt_mult real_sqrt_divide)
  also have "\<dots> = (?hi - ?lo) * sqrt (real ?n / real (?n - 1))"
    using m by simp
  finally show ?thesis .
qed

lemma stat_value_within:
  assumes "fs \<noteq> []" and "st \<noteq> StatStd"
  shows "list_min fs \<le> stat_value s fs st \<and> stat_value s fs st \<le> list_max fs"
proof (cases st)
  case StatBest
  have "fs ! best_index s fs \<in> set fs" using best_index_correct[OF assms(1), of s] by simp
  then show ?thesis using StatBest list_min_le_elem elem_le_list_max by simp
next
  case StatAvg
  then show ?thesis using list_min_le_mean[OF assms(1)] mean_le_list_max[OF assms(1)] by simp
next
  case StatMax
  then show ?thesis using list_max_eq_Max[OF assms(1)] list_min_eq_Min[OF assms(1)] assms(1)
    by (simp add: Max_ge_iff Min_le_iff)
next
  case StatMin
  then show ?thesis using list_max_eq_Max[OF assms(1)] list_min_eq_Min[OF assms(1)] assms(1)
    by (simp add: Max_ge_iff Min_le_iff)
qed (use assms in simp)

subsection \<open>Properties of the statistics\<close>

text \<open>
  C17: the reported statistics satisfy min <= avg <= max, and the best statistic is the max for a maximising sense and the min for a minimising one.
\<close>

theorem fitness_stats_order:
  assumes "is_SoDE de" and "so_fitness de \<noteq> []" and "sense_ok (so_sense de)"
    and "fitness_stats [StatMin, StatAvg, StatMax, StatBest] de = Inr [mn, av, mx, bst]"
  shows "mn \<le> av \<and> av \<le> mx \<and> bst = (if so_sense de = 1 then mx else mn)"
  using assms list_min_le_mean[OF assms(2)] mean_le_list_max[OF assms(2)]
    best_is_max[OF assms(2)] best_is_min[OF assms(2)]
  by (auto simp: fitness_stats_def sense_ok_def)

lemma fitness_stats_order_witness:
  "is_SoDE demo_de \<and> so_fitness demo_de \<noteq> [] \<and> sense_ok (so_sense demo_de)
   \<and> fitness_stats [StatMin, StatAvg, StatMax, StatBest] demo_de = Inr [2, 17/4, 7, 2]
   \<and> (2::real) \<le> 17/4 \<and> 17/4 \<le> (7::real)"
proof -
  have h: "is_SoDE demo_de" "so_fitness demo_de \<noteq> []" "sense_ok (so_sense demo_de)"
    by (simp_all add: demo_de_def is_SoDE_def so_fitness_def sense_ok_def so_sense_def)
  have st: "fitness_stats [StatMin, StatAvg, StatMax, StatBest] demo_de = Inr [2, 17/4, 7, 2]"
    by (simp add: demo_de_def fitness_stats_def is_SoDE_def so_fitness_def so_sense_def list_min_def
        list_max_def mean_def best_index_def strength_def)
  show ?thesis using fitness_stats_order[OF h st] h st by simp
qed

text \<open>
  C22: the ranking utilities are defined for the single-objective variant only (a MethodError for any other evolver) and raise an ArgumentError on an empty fitness vector.
\<close>

theorem ranking_dispatch_errors:
  "(\<not> is_SoDE de \<longrightarrow> best_individual de all = Inl MethodError \<and> best_fitness de = Inl MethodError
       \<and> sort_de rv de = Inl MethodError \<and> fitness_stats sts de = Inl MethodError)
   \<and> (is_SoDE de \<and> so_fitness de = [] \<longrightarrow> best_individual de all = Inl ArgumentError
       \<and> best_fitness de = Inl ArgumentError \<and> fitness_stats sts de = Inl ArgumentError)"
  by (simp add: best_individual_def best_fitness_def sort_de_def fitness_stats_def)

lemma ranking_dispatch_errors_witness:
  "\<not> is_SoDE (demo_de\<lparr>senses := Vector [1, -1]\<rparr>)
   \<and> sort_de False (demo_de\<lparr>senses := Vector [1, -1]\<rparr>) = Inl MethodError
   \<and> best_fitness (demo_de\<lparr>senses := Vector [1, -1]\<rparr>) = Inl MethodError"
proof -
  have m: "\<not> is_SoDE (demo_de\<lparr>senses := Vector [1, -1]\<rparr>)" by (simp add: is_SoDE_def)
  show ?thesis using ranking_dispatch_errors[of "demo_de\<lparr>senses := Vector [1, -1]\<rparr>" False False "[]"] m
    by simp
qed

text \<open>
  C32: the standard-deviation statistic (:std, Julia's corrected std) of at least two
  fitness values is the square root of the mean squared pairwise difference halved,
  sqrt (\<Sum>i \<Sum>j (f_i - f_j)^2 / (2 n (n - 1))), the n - 1 divisor of the corrected sample
  deviation; hence it is non-negative and zero exactly when all fitness values are equal.
\<close>

theorem fitness_stats_std:
  assumes "is_SoDE de" and "2 \<le> length (so_fitness de)"
    and "fitness_stats [StatStd] de = Inr [sd]"
  shows "sd = sqrt ((\<Sum>x\<leftarrow>so_fitness de. \<Sum>y\<leftarrow>so_fitness de. (x - y)\<^sup>2)
                     / (2 * real (length (so_fitness de)) * real (length (so_fitness de) - 1)))
         \<and> 0 \<le> sd \<and> (sd = 0 \<longleftrightarrow> (\<forall>x \<in> set (so_fitness de). x = hd (so_fitness de)))"
proof -
  have e: "sd = std_dev (so_fitness de)" using assms by (auto simp: fitness_stats_def split: if_splits)
  show ?thesis unfolding e
    using std_dev_nonneg[of "so_fitness de"] std_dev_zero_iff[OF assms(2)] std_dev_pairwise[OF assms(2)]
    by blast
qed

lemma fitness_stats_std_witness:
  "is_SoDE demo_de \<and> 2 \<le> length (so_fitness demo_de)
   \<and> fitness_stats [StatStd] demo_de = Inr [sqrt (59 / 12)]"
proof -
  have h: "is_SoDE demo_de" "2 \<le> length (so_fitness demo_de)"
    by (simp_all add: demo_de_def is_SoDE_def so_fitness_def)
  have s: "fitness_stats [StatStd] demo_de = Inr [std_dev [5, 3, 2, 7]]"
    by (simp add: fitness_stats_def h(1)) (simp add: demo_de_def so_fitness_def)
  have f: "so_fitness demo_de = [5, 3, 2, 7]" by (simp add: demo_de_def so_fitness_def)
  have "std_dev [5, 3, 2, 7] = sqrt (59 / 12)"
    using conjunct1[OF fitness_stats_std[OF h s]] by (simp add: f power2_eq_square)
  then show ?thesis using h s by simp
qed

text \<open>
  C33: bounds of the reported statistics: one value per requested statistic; :best,
  :avg, :max and :min lie between the smallest and the largest fitness, and :std of at
  least two values lies between 0 and the fitness range times sqrt(n / (n - 1)).
\<close>

theorem fitness_stats_bounds:
  assumes "fitness_stats sts de = Inr vs"
  shows "length vs = length sts
         \<and> (\<forall>k < length sts.
              (sts ! k \<noteq> StatStd \<longrightarrow> list_min (so_fitness de) \<le> vs ! k \<and> vs ! k \<le> list_max (so_fitness de))
            \<and> (sts ! k = StatStd \<and> 2 \<le> length (so_fitness de) \<longrightarrow> 0 \<le> vs ! k
                 \<and> vs ! k \<le> (list_max (so_fitness de) - list_min (so_fitness de))
                            * sqrt (real (length (so_fitness de)) / real (length (so_fitness de) - 1))))"
proof -
  let ?fs = "so_fitness de"
  have ne: "?fs \<noteq> []" and vs: "vs = map (stat_value (so_sense de) ?fs) sts"
    using assms by (auto simp: fitness_stats_def split: if_splits)
  show ?thesis
    using stat_value_within[OF ne] std_dev_nonneg std_dev_le_range vs by auto
qed

lemma fitness_stats_bounds_witness:
  "fitness_stats [StatMin, StatAvg, StatStd] demo_de = Inr [2, 17/4, std_dev [5, 3, 2, 7]]
   \<and> list_min (so_fitness demo_de) = 2 \<and> list_max (so_fitness demo_de) = 7
   \<and> std_dev [5, 3, 2, 7] \<le> 5 * sqrt (4 / 3)"
proof -
  have f: "so_fitness demo_de = [5, 3, 2, 7]" by (simp add: demo_de_def so_fitness_def)
  have st: "fitness_stats [StatMin, StatAvg, StatStd] demo_de = Inr [2, 17/4, std_dev [5, 3, 2, 7]]"
    by (simp add: fitness_stats_def f) (simp add: demo_de_def is_SoDE_def list_min_def mean_def)
  have mm: "list_min (so_fitness demo_de) = 2" "list_max (so_fitness demo_de) = 7"
    by (simp_all add: f list_min_def list_max_def)
  have "std_dev [5, 3, 2, 7] \<le> (7 - 2) * sqrt (real 4 / real (4 - 1))"
    using fitness_stats_bounds[OF st] mm f by (auto simp: less_Suc_eq numeral_eq_Suc)
  then show ?thesis using st mm by simp
qed

end
