(* ===== verification/DE_Evolve.thy ===== *)
theory DE_Evolve
  imports DE_Mutation DE_Crossover DE_Boundary DE_Selection DE_Stats
begin

text \<open>
  The single-objective evolution loop \<open>evolve!(de, evaluator, ngen; mut, cx, bc, stats)\<close>.
  The keyword arguments are strategies with fixed signatures: a mutation
  \<open>mut(V, i, de)\<close>, a crossover \<open>cx(U, i, de, V)\<close> and a boundary handling symbol
  (only \<open>:bounce_back\<close> is supported); they default to DE/rand/1, binomial crossover and
  bounce-back. A trial step for individual \<open>i\<close> runs mutation, crossover, boundary
  repair, one evaluator call and greedy selection, updating the evolver in place, so a
  later individual's mutation sees the slots already replaced in this generation (the
  spec's default). A generation visits \<open>i = 0 .. n-1\<close> in order; \<open>evolve\<close> runs
  \<open>ngen\<close> generations. The evaluator returns \<open>None\<close> where the Julia function throws;
  the error is propagated as \<open>EvaluatorFailure\<close>. Before the first generation the
  initial population is evaluated, as the docstring says ("each individual's fitness is
  evaluated by the given evaluator"), also when \<open>ngen = 0\<close>. The per-generation statistics are only displayed by the package;
  they are computed by \<open>fitness_stats\<close> of the ranking theory and never change the state.
\<close>

type_synonym 'g mutation = "'g rng \<Rightarrow> nat \<Rightarrow> std_de \<Rightarrow> 'g \<Rightarrow> (vec \<times> 'g) result"
type_synonym 'g crossover = "'g rng \<Rightarrow> nat \<Rightarrow> std_de \<Rightarrow> vec \<Rightarrow> 'g \<Rightarrow> (vec \<times> 'g) result"
type_synonym evaluator = "vec \<Rightarrow> real option"

datatype boundary_handling = BounceBack

record 'g evolve_kw =
  mut :: "'g mutation"
  cx :: "'g crossover"
  bc :: boundary_handling
  stats :: "stat list"

definition default_kw :: "'g evolve_kw" where
  "default_kw = \<lparr>mut = mutate_rand_1, cx = crossover_binomial_de, bc = BounceBack,
                 stats = [StatBest, StatAvg]\<rparr>"

fun apply_bc :: "boundary_handling \<Rightarrow> 'g rng \<Rightarrow> vec \<Rightarrow> vec \<Rightarrow> bound list \<Rightarrow> 'g \<Rightarrow> (vec \<times> 'g) result" where
  "apply_bc BounceBack r U X bnds g = bounce_back r U X bnds g"

definition trial_step :: "'g rng \<Rightarrow> 'g evolve_kw \<Rightarrow> evaluator \<Rightarrow> nat \<Rightarrow> std_de \<times> 'g
                            \<Rightarrow> (std_de \<times> 'g) result" where
  "trial_step r kw ev i st = (case st of (de, g) \<Rightarrow>
     bind_r (mut kw r i de g) (\<lambda>(V, g1).
     bind_r (cx kw r i de V g1) (\<lambda>(U, g2).
     bind_r (apply_bc (bc kw) r U (pop de ! i) (bounds de) g2) (\<lambda>(U', g3).
       case ev U' of
         None \<Rightarrow> Inl EvaluatorFailure
       | Some f \<Rightarrow> Inr (select i U' f de, g3)))))"

fun de_iter :: "'g rng \<Rightarrow> 'g evolve_kw \<Rightarrow> evaluator \<Rightarrow> nat list \<Rightarrow> std_de \<times> 'g
                  \<Rightarrow> (std_de \<times> 'g) result" where
  "de_iter r kw ev [] st = Inr st"
| "de_iter r kw ev (i # is) st = bind_r (trial_step r kw ev i st) (de_iter r kw ev is)"

definition de_generation :: "'g rng \<Rightarrow> 'g evolve_kw \<Rightarrow> evaluator \<Rightarrow> std_de \<times> 'g
                               \<Rightarrow> (std_de \<times> 'g) result" where
  "de_generation r kw ev st = de_iter r kw ev [0..<length (pop (fst st))] st"

fun run_gens :: "'g rng \<Rightarrow> 'g evolve_kw \<Rightarrow> evaluator \<Rightarrow> nat \<Rightarrow> std_de \<times> 'g
                   \<Rightarrow> (std_de \<times> 'g) result" where
  "run_gens r kw ev 0 st = Inr st"
| "run_gens r kw ev (Suc k) st = bind_r (run_gens r kw ev k st) (de_generation r kw ev)"

fun eval_all :: "evaluator \<Rightarrow> population \<Rightarrow> real list result" where
  "eval_all ev [] = Inr []"
| "eval_all ev (x # xs) =
     (case ev x of
        None \<Rightarrow> Inl EvaluatorFailure
      | Some f \<Rightarrow> bind_r (eval_all ev xs) (\<lambda>fs. Inr (f # fs)))"

definition evolve :: "'g rng \<Rightarrow> 'g evolve_kw \<Rightarrow> std_de \<Rightarrow> evaluator \<Rightarrow> nat \<Rightarrow> 'g
                        \<Rightarrow> (std_de \<times> 'g) result" where
  "evolve r kw de ev ngen g =
     (if \<not> is_SoDE de then Inl MethodError
      else if length (pop de) < 4 then Inl InvalidConfiguration
      else bind_r (eval_all ev (pop de)) (\<lambda>fs. run_gens r kw ev ngen (de\<lparr>fitness := AVec fs\<rparr>, g)))"

text \<open>The sum-of-squares evaluator of the spec's end-to-end scenario, used by the witnesses.\<close>

definition sphere :: evaluator where
  "sphere x = Some (sum_list (map (\<lambda>v. v * v) x))"

subsection \<open>Invariant and strategy contract\<close>

text \<open>
  The loop invariant: a well-formed single-objective evolver whose individuals all lie
  in the box. The crossover contract: a trial has the target's length. \<open>dominates\<close>
  says a later state has the same configuration and size, and no slot got weaker.
\<close>

definition evo_inv :: "std_de \<Rightarrow> bool" where
  "evo_inv de \<longleftrightarrow> is_SoDE de \<and> std_de_wf de \<and> pop_in_bounds de"

definition cx_ok :: "'g crossover \<Rightarrow> bool" where
  "cx_ok c \<longleftrightarrow> (\<forall>r i de V g U g'. c r i de V g = Inr (U, g') \<longrightarrow> length U = length (pop de ! i))"

definition evaluator_ok :: "bound list \<Rightarrow> evaluator \<Rightarrow> bool" where
  "evaluator_ok bnds ev \<longleftrightarrow> (\<forall>x. within_bounds bnds x \<longrightarrow> ev x \<noteq> None)"

text \<open>
  Fitness is index-aligned with the population: each fitness value is the evaluator's value
  on the individual in the same slot.
\<close>

definition fitness_consistent :: "evaluator \<Rightarrow> std_de \<Rightarrow> bool" where
  "fitness_consistent ev de \<longleftrightarrow> is_SoDE de \<and> list_all2 (\<lambda>x f. ev x = Some f) (pop de) (so_fitness de)"

definition dominates :: "std_de \<Rightarrow> std_de \<Rightarrow> bool" where
  "dominates de de' \<longleftrightarrow> senses de' = senses de \<and> bounds de' = bounds de \<and> options de' = options de
     \<and> length (pop de') = length (pop de) \<and> length (so_fitness de') = length (so_fitness de)
     \<and> (\<forall>j < length (so_fitness de).
          strength (so_sense de) (so_fitness de ! j) \<le> strength (so_sense de) (so_fitness de' ! j))"

subsection \<open>Safety of one trial step and of the loop\<close>

lemma trial_step_InrD:
  "trial_step r kw ev i (de, g) = Inr st' \<Longrightarrow>
   (\<exists>V g1 U g2 U' g3 f. mut kw r i de g = Inr (V, g1) \<and> cx kw r i de V g1 = Inr (U, g2)
      \<and> apply_bc (bc kw) r U (pop de ! i) (bounds de) g2 = Inr (U', g3) \<and> ev U' = Some f
      \<and> st' = (select i U' f de, g3))"
  by (auto simp: trial_step_def split: prod.splits option.splits)

lemma trial_step_run:
  "mut kw r i de g = Inr (V, g1) \<Longrightarrow> cx kw r i de V g1 = Inr (U, g2)
   \<Longrightarrow> apply_bc (bc kw) r U (pop de ! i) (bounds de) g2 = Inr (U', g3)
   \<Longrightarrow> trial_step r kw ev i (de, g) =
         (case ev U' of None \<Rightarrow> Inl EvaluatorFailure | Some f \<Rightarrow> Inr (select i U' f de, g3))"
  by (simp add: trial_step_def)

lemma evo_inv_fitness_length: "evo_inv de \<Longrightarrow> length (so_fitness de) = length (pop de)"
  by (auto simp: evo_inv_def std_de_wf_def is_SoDE_def so_fitness_def
      split: prod.splits scalar_or_vec.splits vec_or_mat.splits)

lemma evo_inv_nth_bounds:
  "evo_inv de \<Longrightarrow> i < length (pop de) \<Longrightarrow> within_bounds (bounds de) (pop de ! i)"
  by (simp add: evo_inv_def pop_in_bounds_def list_all_length)

lemma evo_inv_select:
  assumes "evo_inv de" and "within_bounds (bounds de) U"
  shows "evo_inv (select i U f de)"
proof -
  have len: "length (so_fitness de) = length (pop de)" by (rule evo_inv_fitness_length[OF assms(1)])
  have "length U = length (bounds de)" using assms(2) by (rule within_bounds_length)
  then show ?thesis using assms len
    by (auto simp: evo_inv_def std_de_wf_def pop_in_bounds_def select_def is_SoDE_def
        so_fitness_def list_all_update
        split: prod.splits scalar_or_vec.splits vec_or_mat.splits)
qed

lemma dominates_refl [simp]: "dominates de de"
  by (simp add: dominates_def)

lemma dominates_trans: "dominates a b \<Longrightarrow> dominates b c \<Longrightarrow> dominates a c"
  by (auto simp: dominates_def so_sense_def intro: order.trans)

lemma dominates_select: "dominates de (select i U f de)"
  by (auto simp: dominates_def select_strength_mono)

lemma apply_bc_within:
  assumes "rng_ok r" and "within_bounds bnds X" and "length U = length bnds"
    and "apply_bc b r U X bnds g = Inr (U', g')"
  shows "within_bounds bnds U'"
proof (cases b)
  case BounceBack
  with assms have "(U', g') = bb_genes r U X bnds g"
    by (auto simp: bounce_back_def split: if_splits)
  then show ?thesis using bb_genes_within[OF assms(1-3), of g] by (metis fst_conv)
qed

lemma trial_step_inv:
  assumes "rng_ok r" and "cx_ok (cx kw)" and "evo_inv de" and "i < length (pop de)"
    and "trial_step r kw ev i (de, g) = Inr (de', g')"
  shows "evo_inv de' \<and> dominates de de'"
proof -
  obtain V g1 U g2 U' g3 f where
    c: "cx kw r i de V g1 = Inr (U, g2)"
    and b: "apply_bc (bc kw) r U (pop de ! i) (bounds de) g2 = Inr (U', g3)"
    and st: "de' = select i U' f de"
    using trial_step_InrD[OF assms(5)] by blast
  have X: "within_bounds (bounds de) (pop de ! i)" by (rule evo_inv_nth_bounds[OF assms(3,4)])
  have "length U = length (bounds de)"
    using assms(2) c within_bounds_length[OF X] unfolding cx_ok_def by metis
  then have "within_bounds (bounds de) U'" by (rule apply_bc_within[OF assms(1) X _ b])
  then show ?thesis using st evo_inv_select[OF assms(3)] dominates_select by simp
qed

lemma de_iter_inv:
  assumes "rng_ok r" and "cx_ok (cx kw)" and "evo_inv de" and "\<forall>i \<in> set is. i < length (pop de)"
    and "de_iter r kw ev is (de, g) = Inr (de', g')"
  shows "evo_inv de' \<and> dominates de de'"
  using assms(3-5)
proof (induction "is" arbitrary: de g)
  case Nil
  then show ?case by simp
next
  case (Cons i "is")
  from Cons.prems(3) obtain de1 g1 where t: "trial_step r kw ev i (de, g) = Inr (de1, g1)"
    and rest: "de_iter r kw ev is (de1, g1) = Inr (de', g')" by auto
  have s: "evo_inv de1 \<and> dominates de de1"
    using trial_step_inv[OF assms(1,2) Cons.prems(1) _ t] Cons.prems(2) by simp
  then have "\<forall>i \<in> set is. i < length (pop de1)" using Cons.prems(2) by (simp add: dominates_def)
  with Cons.IH[of de1 g1] s rest show ?case by (blast intro: dominates_trans)
qed

lemma de_generation_inv:
  assumes "rng_ok r" and "cx_ok (cx kw)" and "evo_inv de"
    and "de_generation r kw ev (de, g) = Inr (de', g')"
  shows "evo_inv de' \<and> dominates de de'"
  using de_iter_inv[OF assms(1-3), of "[0..<length (pop de)]"] assms(4) by (simp add: de_generation_def)

lemma run_gens_inv:
  assumes "rng_ok r" and "cx_ok (cx kw)" and "evo_inv de"
    and "run_gens r kw ev k (de, g) = Inr (de', g')"
  shows "evo_inv de' \<and> dominates de de'"
  using assms(4)
proof (induction k arbitrary: de' g')
  case 0
  then show ?case using assms(3) by simp
next
  case (Suc k)
  from Suc.prems obtain de1 g1 where k: "run_gens r kw ev k (de, g) = Inr (de1, g1)"
    and gen: "de_generation r kw ev (de1, g1) = Inr (de', g')" by auto
  from Suc.IH[OF k] have "evo_inv de1 \<and> dominates de de1" .
  with de_generation_inv[OF assms(1,2) _ gen] show ?case by (blast intro: dominates_trans)
qed

subsection \<open>Progress with the default strategies\<close>

lemma cx_ok_crossover_binomial_de: "cx_ok crossover_binomial_de"
  by (auto simp: cx_ok_def crossover_binomial_de_def crossover_binomial_def split: if_splits prod.splits)
     (metis fst_conv length_cx_genes min.idem)

lemma cx_ok_default: "cx_ok (cx (default_kw :: 'g evolve_kw))"
  by (simp add: default_kw_def cx_ok_crossover_binomial_de)

lemma evo_inv_row_length:
  "evo_inv de \<Longrightarrow> i < length (pop de) \<Longrightarrow> length (pop de ! i) = length (bounds de)"
  by (simp add: evo_inv_def std_de_wf_def list_all_length)

lemma default_step_outcome:
  assumes "rng_ok r" and "evo_inv de" and "i < length (pop de)" and "4 \<le> length (pop de)"
    and "0 < length (bounds de)"
  shows "\<exists>U' g'. within_bounds (bounds de) U' \<and> trial_step r default_kw ev i (de, g) =
           (case ev U' of None \<Rightarrow> Inl EvaluatorFailure | Some f \<Rightarrow> Inr (select i U' f de, g'))"
proof -
  obtain r1 r2 r3 g1 where m: "mutate_rand_1 r i de g =
      Inr (donor (F (options de)) (pop de ! r1) (pop de ! r2) (pop de ! r3), g1)"
    and rs: "r1 < length (pop de)" "r2 < length (pop de)" "r3 < length (pop de)"
    using mutate_rand_1_donor[OF assms(1,3,4), of g] by blast
  let ?V = "donor (F (options de)) (pop de ! r1) (pop de ! r2) (pop de ! r3)"
  let ?X = "pop de ! i"
  have lV: "length ?V = length ?X" using rs assms(3) evo_inv_row_length[OF assms(2)] by simp
  have lX: "length ?X = length (bounds de)" "?X \<noteq> []"
    using evo_inv_row_length[OF assms(2,3)] assms(5) by auto
  obtain jr g2 where jg: "rand_below r (length ?X) g1 = (jr, g2)" by fastforce
  let ?U = "fst (cx_genes r (Cr (options de)) jr 0 ?X ?V g2)"
  let ?g3 = "snd (cx_genes r (Cr (options de)) jr 0 ?X ?V g2)"
  have c: "cx default_kw r i de ?V g1 = Inr (?U, ?g3)"
    using assms(3) lV lX jg by (simp add: default_kw_def crossover_binomial_de_def crossover_binomial_def)
  have lU: "length ?U = length (bounds de)" using lV lX by simp
  let ?U' = "fst (bb_genes r ?U ?X (bounds de) ?g3)"
  have b: "apply_bc (bc default_kw) r ?U ?X (bounds de) ?g3 = Inr (?U', snd (bb_genes r ?U ?X (bounds de) ?g3))"
    using lU lX by (simp add: default_kw_def bounce_back_def)
  have w: "within_bounds (bounds de) ?U'"
    using bb_genes_within[OF assms(1) evo_inv_nth_bounds[OF assms(2,3)] lU] .
  have m': "mut default_kw r i de g = Inr (?V, g1)" using m by (simp add: default_kw_def)
  show ?thesis
    using trial_step_run[where kw = default_kw and r = r and i = i and de = de and g = g and ev = ev,
          OF m' c b] w by blast
qed

lemma default_step_inv:
  assumes "rng_ok r" and "evo_inv de" and "i < length (pop de)"
    and "trial_step r default_kw ev i (de, g) = Inr (de', g')"
  shows "evo_inv de' \<and> dominates de de'"
  by (rule trial_step_inv[OF assms(1) cx_ok_default assms(2-4)])

lemma dominates_evo_facts:
  "dominates de de' \<Longrightarrow> length (pop de') = length (pop de) \<and> bounds de' = bounds de"
  by (simp add: dominates_def)

lemma default_iter_outcome:
  assumes "rng_ok r" and "evo_inv de" and "\<forall>i \<in> set is. i < length (pop de)" and "4 \<le> length (pop de)"
    and "0 < length (bounds de)"
  shows "(\<exists>st'. de_iter r default_kw ev is (de, g) = Inr st')
         \<or> (de_iter r default_kw ev is (de, g) = Inl EvaluatorFailure \<and> \<not> evaluator_ok (bounds de) ev)"
  using assms(2-5)
proof (induction "is" arbitrary: de g)
  case Nil
  then show ?case by simp
next
  case (Cons i "is")
  obtain U' g' where w: "within_bounds (bounds de) U'"
    and t: "trial_step r default_kw ev i (de, g) =
           (case ev U' of None \<Rightarrow> Inl EvaluatorFailure | Some f \<Rightarrow> Inr (select i U' f de, g'))"
    using default_step_outcome[OF assms(1) Cons.prems(1) _ Cons.prems(3,4), of i ev g] Cons.prems(2)
    by auto
  show ?case
  proof (cases "ev U'")
    case None
    then show ?thesis using t w by (auto simp: evaluator_ok_def)
  next
    case (Some f)
    let ?de1 = "select i U' f de"
    have t1: "trial_step r default_kw ev i (de, g) = Inr (?de1, g')" using t Some by simp
    have s: "evo_inv ?de1 \<and> dominates de ?de1"
      using default_step_inv[OF assms(1) Cons.prems(1) _ t1] Cons.prems(2) by simp
    then have "(\<exists>st'. de_iter r default_kw ev is (?de1, g') = Inr st')
         \<or> (de_iter r default_kw ev is (?de1, g') = Inl EvaluatorFailure \<and> \<not> evaluator_ok (bounds ?de1) ev)"
      using Cons.IH[of ?de1 g'] Cons.prems(2-4) dominates_evo_facts[of de ?de1] by simp
    then show ?thesis using t1 s dominates_evo_facts[of de ?de1] by simp
  qed
qed

lemma default_run_gens_outcome:
  assumes "rng_ok r" and "evo_inv de" and "4 \<le> length (pop de)" and "0 < length (bounds de)"
  shows "(\<exists>st'. run_gens r default_kw ev k (de, g) = Inr st')
         \<or> (run_gens r default_kw ev k (de, g) = Inl EvaluatorFailure \<and> \<not> evaluator_ok (bounds de) ev)"
proof (induction k)
  case 0
  then show ?case by simp
next
  case (Suc k)
  show ?case
  proof (cases "\<exists>st'. run_gens r default_kw ev k (de, g) = Inr st'")
    case True
    then obtain de1 g1 where k: "run_gens r default_kw ev k (de, g) = Inr (de1, g1)" by auto
    have s: "evo_inv de1 \<and> dominates de de1" by (rule run_gens_inv[OF assms(1) cx_ok_default assms(2) k])
    then have "(\<exists>st'. de_iter r default_kw ev [0..<length (pop de1)] (de1, g1) = Inr st')
         \<or> (de_iter r default_kw ev [0..<length (pop de1)] (de1, g1) = Inl EvaluatorFailure
            \<and> \<not> evaluator_ok (bounds de1) ev)"
      using default_iter_outcome[OF assms(1), of de1 "[0..<length (pop de1)]"] assms(3,4)
        dominates_evo_facts[of de de1] by simp
    then show ?thesis using k s dominates_evo_facts[of de de1] by (simp add: de_generation_def)
  next
    case False
    then show ?thesis using Suc.IH by auto
  qed
qed

lemma default_run_gens_progress:
  assumes "rng_ok r" and "evo_inv de" and "4 \<le> length (pop de)"
    and "0 < length (bounds de)" and "evaluator_ok (bounds de) ev"
  shows "\<exists>st'. run_gens r default_kw ev k (de, g) = Inr st'"
  using default_run_gens_outcome[OF assms(1-4), where k = k and ev = ev and g = g] assms(5) by blast

lemma eval_all_ok:
  assumes "list_all (within_bounds bnds) P" and "evaluator_ok bnds ev"
  shows "\<exists>fs. eval_all ev P = Inr fs \<and> length fs = length P"
  using assms(1)
proof (induction P)
  case Nil
  then show ?case by simp
next
  case (Cons x P)
  then obtain f where "ev x = Some f" using assms(2) by (auto simp: evaluator_ok_def)
  with Cons show ?case by auto
qed

lemma eval_all_outcome:
  assumes "list_all (within_bounds bnds) P"
  shows "(\<exists>fs. eval_all ev P = Inr fs \<and> length fs = length P)
         \<or> (eval_all ev P = Inl EvaluatorFailure \<and> \<not> evaluator_ok bnds ev)"
  using assms
proof (induction P)
  case Nil
  then show ?case by simp
next
  case (Cons x P)
  then show ?case by (cases "ev x") (auto simp: evaluator_ok_def)
qed

lemma eval_all_length: "eval_all ev P = Inr fs \<Longrightarrow> length fs = length P"
  by (induction P arbitrary: fs) (auto split: option.splits)

lemma evo_inv_set_fitness:
  "evo_inv de \<Longrightarrow> length fs = length (pop de) \<Longrightarrow> evo_inv (de\<lparr>fitness := AVec fs\<rparr>)"
  by (auto simp: evo_inv_def std_de_wf_def is_SoDE_def pop_in_bounds_def
      split: prod.splits scalar_or_vec.splits vec_or_mat.splits)

subsection \<open>Fitness stays aligned with the population\<close>

lemma eval_all_list_all2: "eval_all ev P = Inr fs \<Longrightarrow> list_all2 (\<lambda>x f. ev x = Some f) P fs"
  by (induction P arbitrary: fs) (auto split: option.splits)

lemma select_consistent:
  assumes "fitness_consistent ev de" and "ev U = Some f"
  shows "fitness_consistent ev (select i U f de)"
  using assms
  by (auto simp: fitness_consistent_def is_SoDE_select pop_select so_fitness_select
      intro: list_all2_update_cong)

text \<open>A property of the evolver that every selection keeps, given the evaluator's value of
  the trial, holds after any number of generations, whatever the strategies.\<close>

lemma de_iter_preserves:
  assumes sel: "\<And>i U f d. P d \<Longrightarrow> ev U = Some f \<Longrightarrow> P (select i U f d)"
  shows "de_iter r kw ev is (de, g) = Inr (de', g') \<Longrightarrow> P de \<Longrightarrow> P de'"
proof (induction "is" arbitrary: de g)
  case (Cons i "is")
  then obtain de1 g1 where "trial_step r kw ev i (de, g) = Inr (de1, g1)"
    and "de_iter r kw ev is (de1, g1) = Inr (de', g')" by auto
  with Cons.IH Cons.prems(2) show ?case by (blast dest!: trial_step_InrD intro: sel)
qed simp

lemma run_gens_preserves:
  assumes sel: "\<And>i U f d. P d \<Longrightarrow> ev U = Some f \<Longrightarrow> P (select i U f d)"
  shows "run_gens r kw ev k (de, g) = Inr (de', g') \<Longrightarrow> P de \<Longrightarrow> P de'"
proof (induction k arbitrary: de' g')
  case (Suc k)
  then obtain de1 g1 where "run_gens r kw ev k (de, g) = Inr (de1, g1)"
    and "de_generation r kw ev (de1, g1) = Inr (de', g')" by auto
  with Suc.IH Suc.prems(2) show ?case
    by (auto simp: de_generation_def intro: de_iter_preserves[where P = P, OF sel])
qed simp

lemma run_gens_consistent:
  "run_gens r kw ev k (de, g) = Inr (de', g') \<Longrightarrow> fitness_consistent ev de \<Longrightarrow> fitness_consistent ev de'"
  by (rule run_gens_preserves[where P = "fitness_consistent ev"]) (auto intro: select_consistent)

lemma eval_all_consistent:
  "is_SoDE de \<Longrightarrow> eval_all ev (pop de) = Inr fs \<Longrightarrow> fitness_consistent ev (de\<lparr>fitness := AVec fs\<rparr>)"
  using eval_all_list_all2[of ev "pop de" fs]
  by (auto simp: fitness_consistent_def is_SoDE_def so_fitness_def
           split: prod.splits scalar_or_vec.splits vec_or_mat.splits)

lemma run_gens_pop_length:
  "run_gens r kw ev k (de, g) = Inr (de', g') \<Longrightarrow> length (pop de') = length (pop de)"
  by (rule run_gens_preserves[where P = "\<lambda>d. length (pop d) = length (pop de)"]) (auto simp: pop_select)

subsection \<open>Properties of the evolution loop\<close>

lemma eval_all_fail:
  "\<exists>x \<in> set P. ev x = None \<Longrightarrow> eval_all ev P = Inl EvaluatorFailure"
proof (induction P)
  case (Cons a P)
  show ?case
  proof (cases "ev a")
    case (Some f)
    with Cons.prems have "\<exists>x \<in> set P. ev x = None" by auto
    with Cons.IH Some show ?thesis by simp
  qed simp
qed simp

lemma evo_inv_demo_de: "evo_inv demo_de"
  by (simp add: evo_inv_def demo_de_def is_SoDE_def std_de_wf_def options_ok_def sense_ok_def
      pop_in_bounds_def)

lemma evaluator_ok_sphere: "evaluator_ok bnds sphere"
  by (simp add: evaluator_ok_def sphere_def)

text \<open>
  C1: with the default strategies (DE/rand/1, binomial crossover, bounce-back), a
  seedable generator drawing in [0,1), an evolver whose individuals lie in the box, at least
  four individuals, at least one dimension and an evaluator defined on the box, evolve!
  returns for every generation count, and afterwards every individual still lies in the
  box; configuration and population size are unchanged.
\<close>

theorem evolve_default_in_bounds:
  assumes "rng_ok r" and "evo_inv de" and "4 \<le> length (pop de)" and "0 < length (bounds de)"
    and "evaluator_ok (bounds de) ev"
  shows "\<exists>de' g'. evolve r default_kw de ev ngen g = Inr (de', g') \<and> pop_in_bounds de'
           \<and> std_de_wf de' \<and> is_SoDE de' \<and> bounds de' = bounds de \<and> senses de' = senses de
           \<and> options de' = options de \<and> length (pop de') = length (pop de)"
proof -
  have so: "is_SoDE de" using assms(2) by (simp add: evo_inv_def)
  obtain fs where fs: "eval_all ev (pop de) = Inr fs" "length fs = length (pop de)"
    using eval_all_ok[OF _ assms(5)] assms(2) by (auto simp: evo_inv_def pop_in_bounds_def)
  let ?de0 = "de\<lparr>fitness := AVec fs\<rparr>"
  have inv0: "evo_inv ?de0" by (rule evo_inv_set_fitness[OF assms(2) fs(2)])
  obtain de' g' where run: "run_gens r default_kw ev ngen (?de0, g) = Inr (de', g')"
    using default_run_gens_progress[OF assms(1) inv0, of ev ngen g] assms(3-5)
    by (auto simp del: run_gens.simps)
  have "evo_inv de' \<and> dominates ?de0 de'"
    by (rule run_gens_inv[OF assms(1) cx_ok_default inv0 run])
  moreover have "evolve r default_kw de ev ngen g = Inr (de', g')"
    using so assms(3) fs(1) run by (simp add: evolve_def)
  ultimately show ?thesis by (auto simp: evo_inv_def dominates_def)
qed

lemma evolve_default_in_bounds_witness:
  "rng_ok demo_rng \<and> evo_inv demo_de \<and> 4 \<le> length (pop demo_de) \<and> 0 < length (bounds demo_de)
   \<and> evaluator_ok (bounds demo_de) sphere
   \<and> (\<exists>de' g'. evolve demo_rng default_kw demo_de sphere 200 0 = Inr (de', g') \<and> pop_in_bounds de'
        \<and> std_de_wf de' \<and> is_SoDE de' \<and> bounds de' = bounds demo_de \<and> senses de' = senses demo_de
        \<and> options de' = options demo_de \<and> length (pop de') = length (pop demo_de))"
proof -
  have h: "4 \<le> length (pop demo_de)" "0 < length (bounds demo_de)" by (simp_all add: demo_de_def)
  show ?thesis
    using evolve_default_in_bounds[OF rng_ok_demo_rng evo_inv_demo_de h evaluator_ok_sphere,
        of 200 0]
      rng_ok_demo_rng evo_inv_demo_de h evaluator_ok_sphere by blast
qed

text \<open>
  C2: for any crossover strategy that returns trials of the target's length (the
  strategy interface), whenever evolve! returns, the evolver is still well formed, single
  objective and inside the box, with its bounds and population size unchanged.
\<close>

theorem evolve_preserves_invariant:
  assumes "rng_ok r" and "cx_ok (cx kw)" and "evo_inv de"
    and "evolve r kw de ev ngen g = Inr (de', g')"
  shows "evo_inv de' \<and> bounds de' = bounds de \<and> length (pop de') = length (pop de)"
proof -
  from assms(4) obtain fs where fs: "eval_all ev (pop de) = Inr fs"
    and run: "run_gens r kw ev ngen (de\<lparr>fitness := AVec fs\<rparr>, g) = Inr (de', g')"
    by (auto simp: evolve_def split: if_splits)
  have "evo_inv (de\<lparr>fitness := AVec fs\<rparr>)"
    using evo_inv_set_fitness[OF assms(3)] eval_all_length[OF fs] by simp
  from run_gens_inv[OF assms(1,2) this run] show ?thesis by (simp add: dominates_def)
qed

lemma evolve_preserves_invariant_witness:
  "\<exists>de' g'. rng_ok demo_rng \<and> cx_ok (cx (default_kw :: nat evolve_kw)) \<and> evo_inv demo_de
     \<and> evolve demo_rng default_kw demo_de sphere 3 0 = Inr (de', g')
     \<and> evo_inv de' \<and> bounds de' = bounds demo_de \<and> length (pop de') = length (pop demo_de)"
proof -
  have inv0: "evo_inv (demo_de\<lparr>fitness := AVec [1, 4, 1, 16]\<rparr>)"
    by (rule evo_inv_set_fitness[OF evo_inv_demo_de]) (simp add: demo_de_def)
  obtain de' g' where run: "run_gens demo_rng default_kw sphere 3 (demo_de\<lparr>fitness := AVec [1, 4, 1, 16]\<rparr>, 0)
      = Inr (de', g')"
    using default_run_gens_progress[OF rng_ok_demo_rng inv0, of sphere 3 0]
    by (auto simp: demo_de_def evaluator_ok_sphere simp del: run_gens.simps)
  have ev: "evolve demo_rng default_kw demo_de sphere 3 0 = Inr (de', g')"
    using run by (simp add: evolve_def demo_de_def is_SoDE_def sphere_def)
  show ?thesis
    using evolve_preserves_invariant[OF rng_ok_demo_rng cx_ok_default evo_inv_demo_de ev]
      rng_ok_demo_rng cx_ok_default evo_inv_demo_de ev by blast
qed

text \<open>
  C3: greedy selection makes the best fitness monotone across generations: the strength
  of the best fitness after generation k+1 is at least its strength after generation k.
\<close>

theorem best_fitness_monotone:
  assumes "rng_ok r" and "cx_ok (cx kw)" and "evo_inv de" and "pop de \<noteq> []"
    and "run_gens r kw ev (Suc k) (de, g) = Inr (de2, g2)"
  shows "\<exists>de1 g1 b1 b2. run_gens r kw ev k (de, g) = Inr (de1, g1)
           \<and> best_fitness de1 = Inr b1 \<and> best_fitness de2 = Inr b2
           \<and> strength (so_sense de) b1 \<le> strength (so_sense de) b2"
proof -
  from assms(5) obtain de1 g1 where k: "run_gens r kw ev k (de, g) = Inr (de1, g1)"
    and gen: "de_generation r kw ev (de1, g1) = Inr (de2, g2)" by auto
  have i1: "evo_inv de1 \<and> dominates de de1" by (rule run_gens_inv[OF assms(1-3) k])
  have i2: "evo_inv de2 \<and> dominates de1 de2" using de_generation_inv[OF assms(1,2) _ gen] i1 by simp
  let ?s = "so_sense de" and ?f1 = "so_fitness de1" and ?f2 = "so_fitness de2"
  have s: "so_sense de1 = ?s" "so_sense de2 = ?s"
    using i1 i2 by (auto simp: dominates_def so_sense_def)
  have ne1: "?f1 \<noteq> []" using i1 assms(4) evo_inv_fitness_length[of de1] by (auto simp: dominates_def)
  have ne2: "?f2 \<noteq> []" using i2 ne1 by (auto simp: dominates_def)
  note b1 = best_index_correct[OF ne1, of ?s] and b2 = best_index_correct[OF ne2, of ?s]
  have "strength ?s (?f1 ! best_index ?s ?f1) \<le> strength ?s (?f2 ! best_index ?s ?f1)"
    using i2 b1 s by (auto simp: dominates_def)
  also have "\<dots> \<le> strength ?s (?f2 ! best_index ?s ?f2)"
    using b2 b1 i2 by (auto simp: dominates_def)
  finally show ?thesis using k i1 i2 ne1 ne2 s by (auto simp: best_fitness_def evo_inv_def)
qed

lemma best_fitness_monotone_witness:
  "\<exists>de2 g2. rng_ok demo_rng \<and> cx_ok (cx (default_kw :: nat evolve_kw)) \<and> evo_inv demo_de
     \<and> pop demo_de \<noteq> [] \<and> run_gens demo_rng default_kw sphere (Suc 4) (demo_de, 0) = Inr (de2, g2)
     \<and> (\<exists>de1 g1 b1 b2. run_gens demo_rng default_kw sphere 4 (demo_de, 0) = Inr (de1, g1)
           \<and> best_fitness de1 = Inr b1 \<and> best_fitness de2 = Inr b2
           \<and> strength (so_sense demo_de) b1 \<le> strength (so_sense demo_de) b2)"
proof -
  have ne: "pop demo_de \<noteq> []" by (simp add: demo_de_def)
  obtain de2 g2 where run: "run_gens demo_rng default_kw sphere (Suc 4) (demo_de, 0) = Inr (de2, g2)"
    using default_run_gens_progress[OF rng_ok_demo_rng evo_inv_demo_de, of sphere "Suc 4" 0]
    by (auto simp: demo_de_def evaluator_ok_sphere simp del: run_gens.simps)
  show ?thesis
    using best_fitness_monotone[OF rng_ok_demo_rng cx_ok_default evo_inv_demo_de ne run]
      rng_ok_demo_rng cx_ok_default evo_inv_demo_de ne run by blast
qed

text \<open>
  C11: the error paths of evolve!: a multi-objective evolver has no such method, fewer
  than four individuals is an invalid configuration for DE/rand/1, and an evaluator failure
  on any initial individual is propagated.
\<close>

theorem evolve_errors:
  "(\<not> is_SoDE de \<longrightarrow> evolve r kw de ev ngen g = Inl MethodError)
   \<and> (is_SoDE de \<and> length (pop de) < 4 \<longrightarrow> evolve r kw de ev ngen g = Inl InvalidConfiguration)
   \<and> (is_SoDE de \<and> 4 \<le> length (pop de) \<and> 0 < ngen \<and> (\<exists>x \<in> set (pop de). ev x = None)
        \<longrightarrow> evolve r kw de ev ngen g = Inl EvaluatorFailure)"
  by (auto simp: evolve_def eval_all_fail)

lemma evolve_errors_witness:
  "evolve demo_rng default_kw demo_de (\<lambda>_. None) 1 0 = Inl EvaluatorFailure
   \<and> evolve demo_rng default_kw (demo_de\<lparr>senses := Vector [1, -1]\<rparr>) sphere 1 0 = Inl MethodError"
proof -
  have h: "is_SoDE demo_de" "4 \<le> length (pop demo_de)" "\<exists>x \<in> set (pop demo_de). (\<lambda>_. None) x = (None :: real option)"
    by (auto simp: demo_de_def is_SoDE_def)
  have m: "\<not> is_SoDE (demo_de\<lparr>senses := Vector [1, -1]\<rparr>)" by (simp add: is_SoDE_def)
  show ?thesis
    using evolve_errors[of demo_de demo_rng default_kw "\<lambda>_. None" 1 0]
      evolve_errors[of "demo_de\<lparr>senses := Vector [1, -1]\<rparr>" demo_rng default_kw sphere 1 0] h m
    by auto
qed

text \<open>
  C23: the statistics evolve! reports by default (stats = [:best, :avg]) are exactly the best fitness and the mean fitness of the current population, and the best is at least as strong as the mean.
\<close>

theorem default_stats_best_avg:
  assumes "is_SoDE de" and "so_fitness de \<noteq> []" and "sense_ok (so_sense de)"
  shows "\<exists>b. best_fitness de = Inr b
           \<and> fitness_stats (stats (default_kw :: 'g evolve_kw)) de = Inr [b, mean (so_fitness de)]
           \<and> strength (so_sense de) (mean (so_fitness de)) \<le> strength (so_sense de) b"
  using assms mean_strength_le_best[OF assms(2,3)]
  by (simp add: default_kw_def fitness_stats_def best_fitness_def)

lemma default_stats_best_avg_witness:
  "is_SoDE demo_de \<and> so_fitness demo_de \<noteq> [] \<and> sense_ok (so_sense demo_de)
   \<and> best_fitness demo_de = Inr 2
   \<and> fitness_stats (stats (default_kw :: nat evolve_kw)) demo_de = Inr [2, 17/4]"
proof -
  have h: "is_SoDE demo_de" "so_fitness demo_de \<noteq> []" "sense_ok (so_sense demo_de)"
    by (simp_all add: demo_de_def is_SoDE_def so_fitness_def sense_ok_def so_sense_def)
  have b: "best_fitness demo_de = Inr 2"
    by (simp add: demo_de_def best_fitness_def is_SoDE_def so_fitness_def so_sense_def
        best_index_def strength_def)
  have m: "mean (so_fitness demo_de) = 17/4" by (simp add: demo_de_def so_fitness_def mean_def)
  show ?thesis using default_stats_best_avg[OF h, where 'g = nat] h b m by auto
qed

text \<open>
  The variant is chosen by the shape of senses, not by the number of objectives: a one-element sense vector builds an evolver with one objective that is nevertheless multi-objective, so evolve! and the ranking utilities reject it with a MethodError.
\<close>

theorem single_sense_vector_is_multi_objective:
  assumes "StdDE r n bnds opt (Vector [s]) g = Inr (de, g')"
  shows "nobjectives de = 1 \<and> \<not> is_SoDE de \<and> evolve r2 kw de ev ngen g2 = Inl MethodError
         \<and> best_fitness de = Inl MethodError"
  using assms
  by (auto simp: StdDE_def nobjectives_def is_SoDE_def evolve_def best_fitness_def split: if_splits prod.splits)

lemma single_sense_vector_is_multi_objective_witness:
  "\<exists>de g'. StdDE demo_rng 4 [(-5, 5)] \<lparr>F = 1/2, Cr = 9/10\<rparr> (Vector [1]) 0 = Inr (de, g')
     \<and> nobjectives de = 1 \<and> evolve demo_rng default_kw de sphere 5 0 = Inl MethodError"
proof -
  obtain de g' where c: "StdDE demo_rng 4 [(-5, 5)] \<lparr>F = 1/2, Cr = 9/10\<rparr> (Vector [1]) 0 = Inr (de, g')"
    using StdDE_Inr_iff[of demo_rng 4 "[(-5, 5)]" "\<lparr>F = 1/2, Cr = 9/10\<rparr>" "Vector [1]" 0]
    by (auto simp: sense_ok_def)
  show ?thesis using single_sense_vector_is_multi_objective[OF c, of demo_rng default_kw sphere 5 0] c by blast
qed

text \<open>
  C25: errors of evolve! with the default strategies come only from the evaluator: once the
  start checks pass (a valid evolver of at least four individuals in a box of at least one
  dimension), no configuration or dimension error is raised mid-loop; the run either
  returns or fails with EvaluatorFailure, and the latter only when the evaluator is
  undefined at some point of the box.
\<close>

theorem evolve_fails_only_on_evaluator:
  assumes "rng_ok r" and "evo_inv de" and "4 \<le> length (pop de)" and "0 < length (bounds de)"
  shows "(\<exists>st'. evolve r default_kw de ev ngen g = Inr st')
         \<or> (evolve r default_kw de ev ngen g = Inl EvaluatorFailure \<and> \<not> evaluator_ok (bounds de) ev)"
proof -
  have so: "is_SoDE de" using assms(2) by (simp add: evo_inv_def)
  have inb: "list_all (within_bounds (bounds de)) (pop de)"
    using assms(2) by (simp add: evo_inv_def pop_in_bounds_def)
  show ?thesis
  proof (cases "\<exists>fs. eval_all ev (pop de) = Inr fs \<and> length fs = length (pop de)")
    case True
    then obtain fs where fs: "eval_all ev (pop de) = Inr fs" "length fs = length (pop de)" by blast
    have i0: "evo_inv (de\<lparr>fitness := AVec fs\<rparr>)" by (rule evo_inv_set_fitness[OF assms(2) fs(2)])
    have "(\<exists>st'. run_gens r default_kw ev ngen (de\<lparr>fitness := AVec fs\<rparr>, g) = Inr st')
         \<or> (run_gens r default_kw ev ngen (de\<lparr>fitness := AVec fs\<rparr>, g) = Inl EvaluatorFailure
            \<and> \<not> evaluator_ok (bounds de) ev)"
      using default_run_gens_outcome[OF assms(1) i0, where k = ngen and ev = ev and g = g] assms(3,4) by simp
    then show ?thesis using so assms(3) fs(1) by (simp add: evolve_def)
  next
    case False
    then have "eval_all ev (pop de) = Inl EvaluatorFailure \<and> \<not> evaluator_ok (bounds de) ev"
      using eval_all_outcome[OF inb, of ev] by blast
    then show ?thesis using so assms(3) by (simp add: evolve_def)
  qed
qed

lemma evolve_fails_only_on_evaluator_witness:
  "rng_ok demo_rng \<and> evo_inv demo_de \<and> 4 \<le> length (pop demo_de) \<and> 0 < length (bounds demo_de)
   \<and> evolve demo_rng default_kw demo_de (\<lambda>x. if x = [4] then None else Some 0) 2 0 = Inl EvaluatorFailure
   \<and> \<not> evaluator_ok (bounds demo_de) (\<lambda>x. if x = [4] then None else Some 0)"
proof -
  have h: "4 \<le> length (pop demo_de)" "0 < length (bounds demo_de)" by (simp_all add: demo_de_def)
  have e: "evolve demo_rng default_kw demo_de (\<lambda>x. if x = [4] then None else Some 0) 2 0 = Inl EvaluatorFailure"
    by (simp add: evolve_def demo_de_def is_SoDE_def)
  show ?thesis
    using evolve_fails_only_on_evaluator[OF rng_ok_demo_rng evo_inv_demo_de h,
        of "\<lambda>x. if x = [4] then None else Some 0" 2 0] rng_ok_demo_rng evo_inv_demo_de h e
    by auto
qed

text \<open>
  C12: whenever evolve! returns, the fitness array is aligned with the population: the
  fitness of every individual is the evaluator's value on it (also for ngen = 0, since the
  initial population is evaluated before the first generation). This
  holds for any strategies and any generator: the initial evaluation establishes it and
  every trial step either keeps the slot or writes a trial together with its own fitness.
\<close>

theorem evolve_fitness_consistent:
  assumes "evolve r kw de ev ngen g = Inr (de', g')"
  shows "fitness_consistent ev de'"
proof -
  from assms obtain fs where so: "is_SoDE de" and fs: "eval_all ev (pop de) = Inr fs"
    and run: "run_gens r kw ev ngen (de\<lparr>fitness := AVec fs\<rparr>, g) = Inr (de', g')"
    by (auto simp: evolve_def split: if_splits)
  show ?thesis by (rule run_gens_consistent[OF run eval_all_consistent[OF so fs]])
qed

lemma evolve_fitness_consistent_witness:
  "\<exists>de' g'. evolve demo_rng default_kw demo_de sphere 2 0 = Inr (de', g')
     \<and> fitness_consistent sphere de'"
proof -
  have inv0: "evo_inv (demo_de\<lparr>fitness := AVec [1, 4, 1, 16]\<rparr>)"
    by (rule evo_inv_set_fitness[OF evo_inv_demo_de]) (simp add: demo_de_def)
  obtain de' g' where run: "run_gens demo_rng default_kw sphere 2 (demo_de\<lparr>fitness := AVec [1, 4, 1, 16]\<rparr>, 0)
      = Inr (de', g')"
    using default_run_gens_progress[OF rng_ok_demo_rng inv0, of sphere 2 0]
    by (auto simp: demo_de_def evaluator_ok_sphere simp del: run_gens.simps)
  have ev: "evolve demo_rng default_kw demo_de sphere 2 0 = Inr (de', g')"
    using run by (simp add: evolve_def demo_de_def is_SoDE_def sphere_def)
  show ?thesis using evolve_fitness_consistent[OF ev] ev by auto
qed

end
