(* ===== verification/DE_Generation.thy ===== *)
theory DE_Generation
  imports DE_Evolve
begin

text \<open>
  One generation of \<open>evolve!\<close> as a state machine. The spec describes each individual as
  going through Propose, Evaluate and Accept/Reject exactly once per generation; the
  relation \<open>gen_step\<close> makes these phases explicit, with the event each transition emits
  (the evaluator call is the event \<open>Evaluated i\<close>). A generation starts in phase
  \<open>Propose 0\<close> (or \<open>GenDone\<close> for an empty population) and ends in \<open>GenDone\<close>.
  The functional loop \<open>de_generation\<close> of \<open>DE_Evolve\<close> is proved to return exactly the
  states in which a run of the machine ends, and properties of every run are proved by
  rule induction.
\<close>

datatype phase =
    Propose nat
  | Evaluate nat vec
  | Decide nat vec real
  | GenDone

datatype event =
    Proposed nat
  | Evaluated nat
  | Accepted nat
  | Rejected nat

type_synonym 'g gen_state = "phase \<times> std_de \<times> 'g"

definition next_phase :: "nat \<Rightarrow> nat \<Rightarrow> phase" where
  "next_phase k n = (if k < n then Propose k else GenDone)"

inductive gen_step :: "'g rng \<Rightarrow> 'g evolve_kw \<Rightarrow> evaluator \<Rightarrow> 'g gen_state \<Rightarrow> event
                         \<Rightarrow> 'g gen_state \<Rightarrow> bool"
  for r :: "'g rng" and kw :: "'g evolve_kw" and ev :: evaluator where
  propose:
    "i < length (pop de) \<Longrightarrow> mut kw r i de g = Inr (V, g1) \<Longrightarrow> cx kw r i de V g1 = Inr (U, g2)
     \<Longrightarrow> apply_bc (bc kw) r U (pop de ! i) (bounds de) g2 = Inr (U', g3)
     \<Longrightarrow> gen_step r kw ev (Propose i, de, g) (Proposed i) (Evaluate i U', de, g3)"
| evaluate:
    "ev U = Some f \<Longrightarrow> gen_step r kw ev (Evaluate i U, de, g) (Evaluated i) (Decide i U f, de, g)"
| decide:
    "gen_step r kw ev (Decide i U f, de, g)
       (if strength (so_sense de) (so_fitness de ! i) \<le> strength (so_sense de) f
        then Accepted i else Rejected i)
       (next_phase (Suc i) (length (pop de)), select i U f de, g)"

inductive gen_steps :: "'g rng \<Rightarrow> 'g evolve_kw \<Rightarrow> evaluator \<Rightarrow> 'g gen_state \<Rightarrow> event list
                          \<Rightarrow> 'g gen_state \<Rightarrow> bool"
  for r :: "'g rng" and kw :: "'g evolve_kw" and ev :: evaluator where
  nil: "gen_steps r kw ev s [] s"
| cons: "gen_step r kw ev s e s' \<Longrightarrow> gen_steps r kw ev s' es s'' \<Longrightarrow> gen_steps r kw ev s (e # es) s''"

fun eval_calls :: "event list \<Rightarrow> nat list" where
  "eval_calls [] = []"
| "eval_calls (Evaluated i # es) = i # eval_calls es"
| "eval_calls (_ # es) = eval_calls es"

fun decisions :: "event list \<Rightarrow> nat list" where
  "decisions [] = []"
| "decisions (Accepted i # es) = i # decisions es"
| "decisions (Rejected i # es) = i # decisions es"
| "decisions (_ # es) = decisions es"

definition gen_inv :: "std_de \<Rightarrow> 'g gen_state \<Rightarrow> bool" where
  "gen_inv de0 s = (case s of (ph, de, g) \<Rightarrow> evo_inv de \<and> dominates de0 de \<and>
     (case ph of
        Propose i \<Rightarrow> i < length (pop de)
      | Evaluate i U \<Rightarrow> i < length (pop de) \<and> within_bounds (bounds de) U
      | Decide i U f \<Rightarrow> i < length (pop de) \<and> within_bounds (bounds de) U
      | GenDone \<Rightarrow> True))"

text \<open>
  A measure on machine states: three steps per individual still to be visited.
\<close>

definition gen_measure :: "'g gen_state \<Rightarrow> nat" where
  "gen_measure s = (case s of (ph, de, g) \<Rightarrow>
     (case ph of
        Propose i \<Rightarrow> 3 * (length (pop de) - i) + 3
      | Evaluate i U \<Rightarrow> 3 * (length (pop de) - i) + 2
      | Decide i U f \<Rightarrow> 3 * (length (pop de) - i) + 1
      | GenDone \<Rightarrow> 0))"

inductive_cases propose_stepE: "gen_step r kw ev (Propose i, de, g) e s'"
inductive_cases evaluate_stepE: "gen_step r kw ev (Evaluate i U, de, g) e s'"
inductive_cases decide_stepE: "gen_step r kw ev (Decide i U f, de, g) e s'"
inductive_cases gendone_stepE: "gen_step r kw ev (GenDone, de, g) e s'"
inductive_cases gen_steps_ConsE: "gen_steps r kw ev s (e # es) s''"
inductive_cases gen_steps_NilE: "gen_steps r kw ev s [] s''"

subsection \<open>Runs of one individual\<close>

lemma gen_steps_GenDone: "gen_steps r kw ev (GenDone, de, g) es s' \<Longrightarrow> es = [] \<and> s' = (GenDone, de, g)"
  by (cases rule: gen_steps.cases) (auto elim: gendone_stepE)

lemma gen_steps_trans:
  "gen_steps r kw ev s es s' \<Longrightarrow> gen_steps r kw ev s' es' s'' \<Longrightarrow> gen_steps r kw ev s (es @ es') s''"
  by (induction rule: gen_steps.induct) (auto intro: gen_steps.cons)

lemma trial_run:
  assumes "i < length (pop de)" and "trial_step r kw ev i (de, g) = Inr (de1, g1)"
  shows "\<exists>e. gen_steps r kw ev (Propose i, de, g) [Proposed i, Evaluated i, e]
               (next_phase (Suc i) (length (pop de)), de1, g1)"
proof -
  obtain V ga U gb U' f where m: "mut kw r i de g = Inr (V, ga)" and c: "cx kw r i de V ga = Inr (U, gb)"
    and b: "apply_bc (bc kw) r U (pop de ! i) (bounds de) gb = Inr (U', g1)" and f: "ev U' = Some f"
    and d: "de1 = select i U' f de"
    using trial_step_InrD[OF assms(2)] by auto
  show ?thesis
    using gen_step.propose[where ev = ev, OF assms(1) m c b]
      gen_step.evaluate[where r = r and kw = kw and ev = ev and U = U' and f = f and i = i and de = de and g = g1, OF f]
      gen_step.decide[where r = r and kw = kw and ev = ev and i = i and U = U' and f = f and de = de and g = g1] d
    by (blast intro: gen_steps.intros)
qed

lemma run_trial:
  assumes "gen_steps r kw ev (Propose i, de, g) es s'" and "s' = (GenDone, de', g')"
  shows "\<exists>de1 g1 e es'. trial_step r kw ev i (de, g) = Inr (de1, g1) \<and> i < length (pop de)
           \<and> es = [Proposed i, Evaluated i, e] @ es' \<and> (e = Accepted i \<or> e = Rejected i)
           \<and> gen_steps r kw ev (next_phase (Suc i) (length (pop de)), de1, g1) es' s'"
proof -
  from assms obtain e1 s1 es1 where s1: "gen_step r kw ev (Propose i, de, g) e1 s1"
    and r1: "gen_steps r kw ev s1 es1 s'" and es: "es = e1 # es1"
    by (cases rule: gen_steps.cases) auto
  from s1 obtain V ga U gb U' g3 where i: "i < length (pop de)" and m: "mut kw r i de g = Inr (V, ga)"
    and c: "cx kw r i de V ga = Inr (U, gb)"
    and b: "apply_bc (bc kw) r U (pop de ! i) (bounds de) gb = Inr (U', g3)"
    and e1: "e1 = Proposed i" and sv: "s1 = (Evaluate i U', de, g3)"
    by (rule propose_stepE) auto
  from r1 sv assms(2) obtain e2 s2 es2 where s2: "gen_step r kw ev (Evaluate i U', de, g3) e2 s2"
    and r2: "gen_steps r kw ev s2 es2 s'" and es1: "es1 = e2 # es2"
    by (cases rule: gen_steps.cases) auto
  from s2 obtain f where f: "ev U' = Some f" and e2: "e2 = Evaluated i" and sd: "s2 = (Decide i U' f, de, g3)"
    by (rule evaluate_stepE) auto
  from r2 sd assms(2) obtain e3 s3 es3 where s3: "gen_step r kw ev (Decide i U' f, de, g3) e3 s3"
    and r3: "gen_steps r kw ev s3 es3 s'" and es2: "es2 = e3 # es3"
    by (cases rule: gen_steps.cases) auto
  from s3 have sn: "s3 = (next_phase (Suc i) (length (pop de)), select i U' f de, g3)"
    and e3: "e3 = Accepted i \<or> e3 = Rejected i"
    by (rule decide_stepE; auto)+
  have "trial_step r kw ev i (de, g) = Inr (select i U' f de, g3)"
    using trial_step_run[OF m c b] f by simp
  then show ?thesis using i es es1 es2 e1 e2 e3 sn r3 by auto
qed

lemma length_pop_trial_step:
  "trial_step r kw ev i (de, g) = Inr (de1, g1) \<Longrightarrow> length (pop de1) = length (pop de)"
  by (auto dest!: trial_step_InrD simp: pop_select)

subsection \<open>The loop and the machine agree\<close>

lemma iter_to_run:
  assumes "k \<le> length (pop de)" and "de_iter r kw ev [k..<length (pop de)] (de, g) = Inr (de', g')"
  shows "\<exists>es. gen_steps r kw ev (next_phase k (length (pop de)), de, g) es (GenDone, de', g')"
  using assms
proof (induction "length (pop de) - k" arbitrary: k de g)
  case 0
  then show ?case by (auto simp: next_phase_def intro: gen_steps.nil)
next
  case (Suc m)
  then have k: "k < length (pop de)" by simp
  from Suc.prems(2) k obtain de1 g1 where t: "trial_step r kw ev k (de, g) = Inr (de1, g1)"
    and rest: "de_iter r kw ev [Suc k..<length (pop de)] (de1, g1) = Inr (de', g')"
    by (auto simp: upt_conv_Cons)
  have l: "length (pop de1) = length (pop de)" by (rule length_pop_trial_step[OF t])
  have m: "m = length (pop de1) - Suc k" using Suc.hyps(2) l by simp
  obtain es where "gen_steps r kw ev (next_phase (Suc k) (length (pop de)), de1, g1) es (GenDone, de', g')"
    using Suc.hyps(1)[where k = "Suc k" and de = de1 and g = g1, OF m] k rest l by auto
  moreover obtain e where "gen_steps r kw ev (Propose k, de, g) [Proposed k, Evaluated k, e]
      (next_phase (Suc k) (length (pop de)), de1, g1)"
    using trial_run[OF k t] by blast
  ultimately show ?case using k by (auto simp: next_phase_def intro: gen_steps_trans)
qed

lemma run_to_iter:
  assumes "k \<le> length (pop de)"
    and "gen_steps r kw ev (next_phase k (length (pop de)), de, g) es (GenDone, de', g')"
  shows "de_iter r kw ev [k..<length (pop de)] (de, g) = Inr (de', g')
         \<and> eval_calls es = [k..<length (pop de)] \<and> decisions es = [k..<length (pop de)]"
  using assms
proof (induction "length (pop de) - k" arbitrary: k de g es)
  case 0
  then have "k = length (pop de)" by simp
  then show ?case using 0 gen_steps_GenDone[of r kw ev de g es "(GenDone, de', g')"]
    by (simp add: next_phase_def)
next
  case (Suc m)
  then have k: "k < length (pop de)" by simp
  then have run: "gen_steps r kw ev (Propose k, de, g) es (GenDone, de', g')"
    using Suc.prems(2) by (simp add: next_phase_def)
  obtain de1 g1 e es' where t: "trial_step r kw ev k (de, g) = Inr (de1, g1)"
    and es: "es = [Proposed k, Evaluated k, e] @ es'" and e: "e = Accepted k \<or> e = Rejected k"
    and rest: "gen_steps r kw ev (next_phase (Suc k) (length (pop de)), de1, g1) es' (GenDone, de', g')"
    using run_trial[OF run refl] by blast
  have l: "length (pop de1) = length (pop de)" by (rule length_pop_trial_step[OF t])
  have m: "m = length (pop de1) - Suc k" using Suc.hyps(2) l by simp
  have ih: "de_iter r kw ev [Suc k..<length (pop de)] (de1, g1) = Inr (de', g')
         \<and> eval_calls es' = [Suc k..<length (pop de)] \<and> decisions es' = [Suc k..<length (pop de)]"
    using Suc.hyps(1)[where k = "Suc k" and de = de1 and g = g1 and es = es', OF m] k rest l by auto
  show ?case using ih t es e k by (auto simp: upt_conv_Cons)
qed

subsection \<open>Invariant of every run\<close>

lemma gen_step_inv:
  assumes "rng_ok r" and "cx_ok (cx kw)"
  shows "gen_step r kw ev s e s' \<Longrightarrow> gen_inv de0 s \<Longrightarrow> gen_inv de0 s'"
proof (induction rule: gen_step.induct)
  case (propose i de g V g1 U g2 U' g3)
  have X: "within_bounds (bounds de) (pop de ! i)"
    using propose.prems propose.hyps(1) by (auto simp: gen_inv_def intro: evo_inv_nth_bounds)
  have "length U = length (bounds de)"
    using assms(2) propose.hyps(3) within_bounds_length[OF X] unfolding cx_ok_def by metis
  then have "within_bounds (bounds de) U'" by (rule apply_bc_within[OF assms(1) X _ propose.hyps(4)])
  then show ?case using propose.prems propose.hyps(1) by (simp add: gen_inv_def)
next
  case (evaluate U f i de g)
  then show ?case by (simp add: gen_inv_def)
next
  case (decide i U f de g)
  then have inv: "evo_inv de" "dominates de0 de" "within_bounds (bounds de) U" by (simp_all add: gen_inv_def)
  have "evo_inv (select i U f de)" by (rule evo_inv_select[OF inv(1,3)])
  moreover have "dominates de0 (select i U f de)" by (rule dominates_trans[OF inv(2) dominates_select])
  ultimately show ?case by (simp add: gen_inv_def next_phase_def pop_select)
qed

lemma gen_steps_inv:
  assumes "rng_ok r" and "cx_ok (cx kw)"
  shows "gen_steps r kw ev s es s' \<Longrightarrow> gen_inv de0 s \<Longrightarrow> gen_inv de0 s'"
  by (induction rule: gen_steps.induct) (auto intro: gen_step_inv[OF assms])

lemma gen_inv_start: "evo_inv de \<Longrightarrow> gen_inv de (next_phase 0 (length (pop de)), de, g)"
  by (simp add: gen_inv_def next_phase_def)

lemma run_gens_one: "run_gens r kw ev 1 (de, g) = de_iter r kw ev [0..<length (pop de)] (de, g)"
  by (simp add: de_generation_def)

subsection \<open>Termination of the machine\<close>

lemma gen_step_measure: "gen_step r kw ev s e s' \<Longrightarrow> gen_measure s' < gen_measure s"
  by (induction rule: gen_step.induct) (auto simp: gen_measure_def next_phase_def pop_select)

lemma gen_steps_measure: "gen_steps r kw ev s es s' \<Longrightarrow> length es + gen_measure s' \<le> gen_measure s"
  by (induction rule: gen_steps.induct) (auto dest: gen_step_measure)

subsection \<open>Properties of a generation\<close>

text \<open>
  C26: the functional generation loop refines the state machine: one generation of
  evolve! returns a state exactly when some run of the Propose/Evaluate/Decide machine from
  the first individual reaches the end of the generation in that state.
\<close>

theorem generation_machine_refines:
  "run_gens r kw ev 1 (de, g) = Inr (de', g') \<longleftrightarrow>
     (\<exists>es. gen_steps r kw ev (next_phase 0 (length (pop de)), de, g) es (GenDone, de', g'))"
  unfolding run_gens_one using iter_to_run[of 0 de r kw ev g de' g'] run_to_iter[of 0 de r kw ev g _ de' g']
  by auto

lemma generation_machine_refines_witness:
  "\<exists>de' g'. run_gens demo_rng default_kw sphere 1 (demo_de, 0) = Inr (de', g')
     \<and> (\<exists>es. gen_steps demo_rng default_kw sphere (next_phase 0 (length (pop demo_de)), demo_de, 0) es
              (GenDone, de', g'))"
proof -
  obtain de' g' where run: "run_gens demo_rng default_kw sphere 1 (demo_de, 0) = Inr (de', g')"
    using default_run_gens_progress[OF rng_ok_demo_rng evo_inv_demo_de, of sphere 1 0]
    by (auto simp: demo_de_def evaluator_ok_sphere simp del: run_gens.simps)
  show ?thesis using generation_machine_refines[of demo_rng default_kw sphere demo_de 0 de' g'] run by blast
qed

text \<open>
  C27: in a generation that completes, every individual goes through Propose, Evaluate and
  Accept/Reject exactly once: every run of the machine that reaches the end of the
  generation calls the evaluator once per individual, in index order, and takes one
  accept-or-reject decision per individual.
\<close>

theorem generation_evaluates_each_once:
  assumes "run_gens r kw ev 1 (de, g) = Inr (de', g')"
  shows "(\<exists>es. gen_steps r kw ev (next_phase 0 (length (pop de)), de, g) es (GenDone, de', g'))
         \<and> (\<forall>es. gen_steps r kw ev (next_phase 0 (length (pop de)), de, g) es (GenDone, de', g') \<longrightarrow>
               eval_calls es = [0..<length (pop de)] \<and> decisions es = [0..<length (pop de)])"
  using iter_to_run[of 0 de r kw ev g de' g'] run_to_iter[of 0 de r kw ev g _ de' g'] assms
  unfolding run_gens_one by auto

lemma generation_evaluates_each_once_witness:
  "\<exists>de' g'. run_gens demo_rng default_kw sphere 1 (demo_de, 0) = Inr (de', g')
     \<and> (\<exists>es. gen_steps demo_rng default_kw sphere (next_phase 0 4, demo_de, 0) es (GenDone, de', g')
              \<and> eval_calls es = [0, 1, 2, 3])"
proof -
  obtain de' g' where run: "run_gens demo_rng default_kw sphere 1 (demo_de, 0) = Inr (de', g')"
    using default_run_gens_progress[OF rng_ok_demo_rng evo_inv_demo_de, of sphere 1 0]
    by (auto simp: demo_de_def evaluator_ok_sphere simp del: run_gens.simps)
  have n: "length (pop demo_de) = 4" by (simp add: demo_de_def)
  show ?thesis using generation_evaluates_each_once[OF run] run n by (auto simp: upt_rec)
qed

text \<open>
  C28: the evaluator is only ever called on points of the box: in every run of a
  generation from a valid evolver, whenever the machine is about to evaluate the trial of
  individual i, that trial lies within the bounds (it has been through boundary repair),
  the evolver is still valid, and no slot has become weaker since the generation began.
\<close>

theorem evaluator_called_in_box:
  assumes "rng_ok r" and "cx_ok (cx kw)" and "evo_inv de"
    and "gen_steps r kw ev (next_phase 0 (length (pop de)), de, g) es (Evaluate i U, de1, g1)"
  shows "within_bounds (bounds de) U \<and> i < length (pop de) \<and> evo_inv de1 \<and> dominates de de1"
proof -
  have "gen_inv de (Evaluate i U, de1, g1)"
    by (rule gen_steps_inv[OF assms(1,2) assms(4) gen_inv_start[OF assms(3)]])
  then show ?thesis by (auto simp: gen_inv_def dominates_def)
qed

lemma evaluator_called_in_box_witness:
  "\<exists>es U g1. rng_ok demo_rng \<and> cx_ok (cx (default_kw :: nat evolve_kw)) \<and> evo_inv demo_de
     \<and> gen_steps demo_rng default_kw sphere (next_phase 0 (length (pop demo_de)), demo_de, 0) es
          (Evaluate 0 U, demo_de, g1)
     \<and> within_bounds (bounds demo_de) U"
proof -
  have n: "0 < length (pop demo_de)" "4 \<le> length (pop demo_de)" "0 < length (bounds demo_de)"
    by (simp_all add: demo_de_def)
  have "\<exists>st'. de_iter demo_rng default_kw sphere [0] (demo_de, 0) = Inr st'"
    using default_iter_outcome[OF rng_ok_demo_rng evo_inv_demo_de, of "[0]" sphere 0] n evaluator_ok_sphere
    by simp
  then obtain de1 g1 where t: "trial_step demo_rng default_kw sphere 0 (demo_de, 0) = Inr (de1, g1)"
    by auto
  obtain V ga U gb U' g3 where m: "mut default_kw demo_rng 0 demo_de 0 = Inr (V, ga)"
    and c: "cx default_kw demo_rng 0 demo_de V ga = Inr (U, gb)"
    and b: "apply_bc (bc (default_kw :: nat evolve_kw)) demo_rng U (pop demo_de ! 0) (bounds demo_de) gb
            = Inr (U', g3)"
    using trial_step_InrD[OF t] by (elim exE conjE) blast
  have run: "gen_steps demo_rng default_kw sphere (next_phase 0 (length (pop demo_de)), demo_de, 0)
      [Proposed 0] (Evaluate 0 U', demo_de, g3)"
    using gen_step.propose[where ev = sphere, OF n(1) m c b] n(1)
    by (auto simp: next_phase_def intro: gen_steps.intros)
  show ?thesis
    using evaluator_called_in_box[OF rng_ok_demo_rng cx_ok_default evo_inv_demo_de run]
      rng_ok_demo_rng cx_ok_default evo_inv_demo_de run by blast
qed

text \<open>
  The generation machine terminates: every step decreases \<open>gen_measure\<close>, so the
  converse of the step relation is well founded (there is no infinite run, whatever the
  strategies and the evaluator), and a run from a state has at most as many steps as the
  measure of that state (3n + 3 from the start of a generation of n individuals).
\<close>

theorem gen_step_terminates:
  "wf {(s', s). \<exists>e. gen_step r kw ev s e s'}
   \<and> (gen_steps r kw ev s es s' \<longrightarrow> length es \<le> gen_measure s)"
proof
  show "wf {(s', s). \<exists>e. gen_step r kw ev s e s'}"
    by (rule wf_subset[OF wf_measure[of gen_measure]]) (auto dest: gen_step_measure)
  show "gen_steps r kw ev s es s' \<longrightarrow> length es \<le> gen_measure s"
    using gen_steps_measure[of r kw ev s es s'] by auto
qed

lemma gen_step_terminates_witness:
  "\<exists>es de' g'. gen_steps demo_rng default_kw sphere (Propose 0, demo_de, 0) es (GenDone, de', g')
     \<and> length es \<le> 15"
proof -
  obtain de' g' where run: "run_gens demo_rng default_kw sphere 1 (demo_de, 0) = Inr (de', g')"
    using default_run_gens_progress[OF rng_ok_demo_rng evo_inv_demo_de, of sphere 1 0]
    by (auto simp: demo_de_def evaluator_ok_sphere simp del: run_gens.simps)
  have n: "length (pop demo_de) = 4" by (simp add: demo_de_def)
  have it: "de_iter demo_rng default_kw sphere [0..<length (pop demo_de)] (demo_de, 0) = Inr (de', g')"
    using run unfolding run_gens_one .
  obtain es where es: "gen_steps demo_rng default_kw sphere (Propose 0, demo_de, 0) es (GenDone, de', g')"
    using iter_to_run[OF _ it] n by (auto simp: next_phase_def)
  have "length es \<le> gen_measure (Propose 0, demo_de, (0::nat))"
    using gen_step_terminates[of demo_rng default_kw sphere] es by blast
  then show ?thesis using es n by (auto simp: gen_measure_def)
qed

end
