(* ===== verification/DE_Snapshot.thy ===== *)
theory DE_Snapshot
  imports DE_Evolve
begin

text \<open>
  The alternative generation the spec also allows. Section 4.7 asks that donors be
  sampled from the population as it was at the start of the generation; section 5 fixes
  in-place update, visible to later donor sampling, as the default, which is what
  \<open>de_generation\<close> models. Here \<open>trial_step_snap\<close> and \<open>de_generation_snap\<close> draw
  the donor from the snapshot \<open>de0\<close> and otherwise do what \<open>trial_step\<close> does
  (crossover with the current target, repair, evaluation, greedy selection in place).
  Both keep the loop invariant; on a concrete evolver they give different generations.
\<close>

definition trial_step_snap :: "'g rng \<Rightarrow> 'g evolve_kw \<Rightarrow> evaluator \<Rightarrow> std_de \<Rightarrow> nat \<Rightarrow> std_de \<times> 'g
                                 \<Rightarrow> (std_de \<times> 'g) result" where
  "trial_step_snap r kw ev de0 i st = (case st of (de, g) \<Rightarrow>
     bind_r (mut kw r i de0 g) (\<lambda>(V, g1).
     bind_r (cx kw r i de V g1) (\<lambda>(U, g2).
     bind_r (apply_bc (bc kw) r U (pop de ! i) (bounds de) g2) (\<lambda>(U', g3).
       case ev U' of
         None \<Rightarrow> Inl EvaluatorFailure
       | Some f \<Rightarrow> Inr (select i U' f de, g3)))))"

fun de_iter_snap :: "'g rng \<Rightarrow> 'g evolve_kw \<Rightarrow> evaluator \<Rightarrow> std_de \<Rightarrow> nat list \<Rightarrow> std_de \<times> 'g
                       \<Rightarrow> (std_de \<times> 'g) result" where
  "de_iter_snap r kw ev de0 [] st = Inr st"
| "de_iter_snap r kw ev de0 (i # is) st =
     bind_r (trial_step_snap r kw ev de0 i st) (de_iter_snap r kw ev de0 is)"

definition de_generation_snap :: "'g rng \<Rightarrow> 'g evolve_kw \<Rightarrow> evaluator \<Rightarrow> std_de \<times> 'g
                                    \<Rightarrow> (std_de \<times> 'g) result" where
  "de_generation_snap r kw ev st = de_iter_snap r kw ev (fst st) [0..<length (pop (fst st))] st"

text \<open>
  A strategy record that makes a generation easy to follow: the donor of individual
  \<open>i\<close> is a copy of individual \<open>i + 1\<close> (cyclically) and crossover returns the donor.
\<close>

definition copy_next_kw :: "nat evolve_kw" where
  "copy_next_kw = \<lparr>mut = (\<lambda>r i de g. Inr (pop de ! (Suc i mod length (pop de)), g)),
                   cx = (\<lambda>r i de V g. Inr (V, g)), bc = BounceBack, stats = []\<rparr>"

subsection \<open>The snapshot generation keeps the invariant\<close>

lemma trial_step_snap_InrD:
  "trial_step_snap r kw ev de0 i (de, g) = Inr st' \<Longrightarrow>
   (\<exists>V g1 U g2 U' g3 f. mut kw r i de0 g = Inr (V, g1) \<and> cx kw r i de V g1 = Inr (U, g2)
      \<and> apply_bc (bc kw) r U (pop de ! i) (bounds de) g2 = Inr (U', g3) \<and> ev U' = Some f
      \<and> st' = (select i U' f de, g3))"
  by (auto simp: trial_step_snap_def split: prod.splits option.splits)

lemma trial_step_snap_inv:
  assumes "rng_ok r" and "cx_ok (cx kw)" and "evo_inv de" and "i < length (pop de)"
    and "trial_step_snap r kw ev de0 i (de, g) = Inr (de', g')"
  shows "evo_inv de' \<and> dominates de de'"
proof -
  obtain V g1 U g2 U' g3 f where
    c: "cx kw r i de V g1 = Inr (U, g2)"
    and b: "apply_bc (bc kw) r U (pop de ! i) (bounds de) g2 = Inr (U', g3)"
    and st: "de' = select i U' f de"
    using trial_step_snap_InrD[OF assms(5)] by blast
  have X: "within_bounds (bounds de) (pop de ! i)" by (rule evo_inv_nth_bounds[OF assms(3,4)])
  have "length U = length (bounds de)"
    using assms(2) c within_bounds_length[OF X] unfolding cx_ok_def by metis
  then have "within_bounds (bounds de) U'" by (rule apply_bc_within[OF assms(1) X _ b])
  then show ?thesis using st evo_inv_select[OF assms(3)] dominates_select by simp
qed

lemma de_iter_snap_inv:
  assumes "rng_ok r" and "cx_ok (cx kw)" and "evo_inv de" and "\<forall>i \<in> set is. i < length (pop de)"
    and "de_iter_snap r kw ev de0 is (de, g) = Inr (de', g')"
  shows "evo_inv de' \<and> dominates de de'"
  using assms(3-5)
proof (induction "is" arbitrary: de g)
  case Nil
  then show ?case by simp
next
  case (Cons i "is")
  from Cons.prems(3) obtain de1 g1 where t: "trial_step_snap r kw ev de0 i (de, g) = Inr (de1, g1)"
    and rest: "de_iter_snap r kw ev de0 is (de1, g1) = Inr (de', g')" by auto
  have s: "evo_inv de1 \<and> dominates de de1"
    using trial_step_snap_inv[OF assms(1,2) Cons.prems(1) _ t] Cons.prems(2) by simp
  then have "\<forall>i \<in> set is. i < length (pop de1)" using Cons.prems(2) by (simp add: dominates_def)
  with Cons.IH[of de1 g1] s rest show ?case by (blast intro: dominates_trans)
qed

text \<open>
  The snapshot generation keeps the same invariant as the in-place one: for any
  crossover meeting the interface contract, a valid evolver stays valid and inside the
  box, and no slot gets weaker.
\<close>

lemma de_generation_snap_inv:
  assumes "rng_ok r" and "cx_ok (cx kw)" and "evo_inv de"
    and "de_generation_snap r kw ev (de, g) = Inr (de', g')"
  shows "evo_inv de' \<and> dominates de de'"
  using de_iter_snap_inv[OF assms(1-3), of "[0..<length (pop de)]"] assms(4)
  by (simp add: de_generation_snap_def)

lemma de_generation_snap_inv_witness:
  "\<exists>de' g'. rng_ok demo_rng \<and> cx_ok (cx (default_kw :: nat evolve_kw)) \<and> evo_inv demo_de
     \<and> de_generation_snap demo_rng default_kw sphere (demo_de, 0) = Inr (de', g')
     \<and> evo_inv de' \<and> dominates demo_de de'"
proof -
  have "case de_generation_snap demo_rng default_kw sphere (demo_de, 0) of Inl _ \<Rightarrow> False | Inr _ \<Rightarrow> True"
    by code_simp
  then obtain de' g' where run: "de_generation_snap demo_rng default_kw sphere (demo_de, 0) = Inr (de', g')"
    by (auto split: sum.splits)
  show ?thesis
    using de_generation_snap_inv[OF rng_ok_demo_rng cx_ok_default evo_inv_demo_de run]
      rng_ok_demo_rng cx_ok_default evo_inv_demo_de run by blast
qed

text \<open>
  The two generations the spec describes are observably different. With the same
  generator, evaluator and strategies (copy the next individual, take the donor as the
  trial), the in-place generation of evolve! gives the last individual a copy of the
  already replaced first slot, while the snapshot generation copies the original one.
\<close>

lemma in_place_differs_from_snapshot:
  "de_generation demo_rng copy_next_kw sphere (demo_de, 0)
     = Inr (demo_de\<lparr>pop := [[2], [-1], [-1], [2]], fitness := AVec [4, 1, 2, 4]\<rparr>, 0)
   \<and> de_generation_snap demo_rng copy_next_kw sphere (demo_de, 0)
     = Inr (demo_de\<lparr>pop := [[2], [-1], [-1], [1]], fitness := AVec [4, 1, 2, 1]\<rparr>, 0)"
  by code_simp

end
