(* ===== verification/DE_Format.thy ===== *)
theory DE_Format
  imports DE_Stats "HOL-Library.Log_Nat"
begin

text \<open>
  The display of the per-generation statistics. \<open>evolve!\<close> prints each requested statistic
  with \<open>stats_fmt\<close>, a Formatting.jl \<open>FormatSpec\<close> whose default \<open>"10.5e"\<close> is scientific
  notation with five digits after the point, right-aligned in a field of width 10. The
  conversion is Formatting.jl's, which is not part of the sources; it is modelled from its
  documented behaviour (Python-style format specifications): round to \<open>p + 1\<close> significant
  digits, print \<open>d.ddddde\<plusminus>XX\<close>, pad on the left to the width. The lemmas show that the
  printed text reads back as the statistic rounded to six significant digits, that this is
  within a relative error of \<open>5 \<cdot> 10^-6\<close>, and that the width 10 never pads.
\<close>

text \<open>A format specification as Formatting.jl's \<open>FormatSpec\<close> holds it for the \<open>e\<close>
  conversion: the minimum field width and the number of digits after the point.\<close>

record format_spec =
  fs_width :: nat
  fs_prec :: nat

subsection \<open>Decimal digits\<close>

definition digit_char :: "nat \<Rightarrow> char" where
  "digit_char d = char_of (48 + d)"

fun digits_of :: "nat \<Rightarrow> string" where
  "digits_of n = (if n < 10 then [digit_char n] else digits_of (n div 10) @ [digit_char (n mod 10)])"

declare digits_of.simps [simp del]

definition digits_pad :: "nat \<Rightarrow> nat \<Rightarrow> string" where
  "digits_pad k n = replicate (k - length (digits_of n)) (CHR ''0'') @ digits_of n"

subsection \<open>Rounding to \<open>p + 1\<close> significant digits\<close>

text \<open>Julia's \<open>round\<close> rounds to nearest with ties to even.\<close>

definition round_even :: "real \<Rightarrow> int" where
  "round_even q = (let f = \<lfloor>q\<rfloor>; r = q - of_int f in
     if r < 1/2 then f else if 1/2 < r then f + 1 else if even f then f else f + 1)"

text \<open>The decimal exponent \<open>e\<close> of \<open>a > 0\<close>, \<open>10^e \<le> a < 10^(e+1)\<close>, computed from the
  number of digits of \<open>\<lfloor>a\<rfloor>\<close> (for \<open>a \<ge> 1\<close>) or of \<open>\<lceil>1/a\<rceil> - 1\<close> (for \<open>a < 1\<close>), so that it
  evaluates without logarithms.\<close>

definition dec_exp :: "real \<Rightarrow> int" where
  "dec_exp a = (if 1 \<le> a then int (floorlog 10 (nat \<lfloor>a\<rfloor>)) - 1
                else - int (floorlog 10 (nat (\<lceil>1 / a\<rceil> - 1))))"

text \<open>\<open>sci_round p x\<close> is the sign, the mantissa \<open>m\<close> (\<open>p + 1\<close> digits) and the exponent
  \<open>e\<close> of \<open>x\<close> rounded to \<open>p + 1\<close> significant digits, \<open>x \<approx> \<plusminus>m \<cdot> 10^(e - p)\<close>; a
  mantissa that rounds up to \<open>10^(p+1)\<close> carries into the exponent.\<close>

definition sci_round :: "nat \<Rightarrow> real \<Rightarrow> bool \<times> nat \<times> int" where
  "sci_round p x = (if x = 0 then (False, 0, 0) else
     let e = dec_exp \<bar>x\<bar>; m = nat (round_even (\<bar>x\<bar> / 10 powi (e - int p)))
     in if m = 10 ^ (p + 1) then (x < 0, 10 ^ p, e + 1) else (x < 0, m, e))"

subsection \<open>The \<open>e\<close> conversion\<close>

text \<open>The text of \<open>x\<close> without padding: an optional minus sign, the leading digit, a point
  and \<open>p\<close> digits (no point when \<open>p = 0\<close>), then \<open>e\<close>, the exponent's sign and at least two
  exponent digits. Numbers are right-aligned, so the padding is on the left.\<close>

definition e_body :: "nat \<Rightarrow> real \<Rightarrow> string" where
  "e_body p x = (case sci_round p x of (neg, m, e) \<Rightarrow>
     let ds = digits_pad (p + 1) m
     in (if neg then ''-'' else []) @ [hd ds] @ (if p = 0 then [] else CHR ''.'' # tl ds)
        @ CHR ''e'' # (if e < 0 then CHR ''-'' else CHR ''+'') # digits_pad 2 (nat \<bar>e\<bar>))"

definition pad_left :: "nat \<Rightarrow> string \<Rightarrow> string" where
  "pad_left w s = replicate (w - length s) (CHR '' '') @ s"

definition format_e :: "format_spec \<Rightarrow> real \<Rightarrow> string" where
  "format_e fs x = pad_left (fs_width fs) (e_body (fs_prec fs) x)"

subsection \<open>Reading a formatted statistic back\<close>

text \<open>The value a triple of \<open>sci_round\<close> stands for, and a reader for the text the
  conversion prints (leading blanks, sign, digits with an optional point, \<open>e\<close>, signed exponent).
  The reader is the specification of what the printed text means; it is not part of the
  program.\<close>

definition sci_value :: "nat \<Rightarrow> bool \<times> nat \<times> int \<Rightarrow> real" where
  "sci_value p t = (case t of (neg, m, e) \<Rightarrow> (if neg then -1 else 1) * real m * 10 powi (e - int p))"

definition is_digit :: "char \<Rightarrow> bool" where
  "is_digit c \<longleftrightarrow> 48 \<le> (of_char c :: nat) \<and> (of_char c :: nat) \<le> 57"

definition read_nat :: "string \<Rightarrow> nat option" where
  "read_nat s = (if s \<noteq> [] \<and> list_all is_digit s
                 then Some (foldl (\<lambda>n c. 10 * n + (of_char c - 48)) 0 s) else None)"

definition parse_e :: "string \<Rightarrow> real option" where
  "parse_e s =
     (let t = dropWhile (\<lambda>c. c = CHR '' '') s;
          neg = (take 1 t = ''-'');
          u = (if neg then drop 1 t else t);
          mant = takeWhile (\<lambda>c. c \<noteq> CHR ''e'') u;
          ex = drop (Suc (length mant)) u;
          ip = takeWhile (\<lambda>c. c \<noteq> CHR ''.'') mant;
          fp = drop (Suc (length ip)) mant
      in if length mant = length u \<or> ex = [] \<or> (hd ex \<noteq> CHR ''+'' \<and> hd ex \<noteq> CHR ''-'') then None
         else case (read_nat (ip @ fp), read_nat (tl ex)) of
           (Some M, Some E) \<Rightarrow>
             Some ((if neg then -1 else 1) * real M
                   * 10 powi ((if hd ex = CHR ''-'' then - int E else int E) - int (length fp)))
         | _ \<Rightarrow> None)"

subsection \<open>The statistics display of \<open>evolve!\<close>\<close>

text \<open>\<open>stats_fmt::FormatSpec = FormatSpec("10.5e")\<close>: width 10, 5 digits after the point.\<close>

definition default_stats_fmt :: format_spec where
  "default_stats_fmt = \<lparr>fs_width = 10, fs_prec = 5\<rparr>"

text \<open>The text displayed for the requested statistics: each value of \<open>fitness_stats\<close>
  formatted with \<open>stats_fmt\<close>; the errors of \<open>fitness_stats\<close> propagate.\<close>

definition display_stats :: "format_spec \<Rightarrow> stat list \<Rightarrow> std_de \<Rightarrow> string list result" where
  "display_stats fs sts de = bind_r (fitness_stats sts de) (\<lambda>vs. Inr (map (format_e fs) vs))"

subsection \<open>Exponent and rounding\<close>

lemma dec_exp_ge1:
  assumes "1 \<le> a"
  shows "10 powi dec_exp a \<le> a \<and> a < 10 powi (dec_exp a + 1)"
proof -
  define n where "n = nat \<lfloor>a\<rfloor>"
  have n0: "0 < n" using assms by (simp add: n_def)
  have fb: "10 ^ (floorlog 10 n - 1) \<le> n \<and> n < 10 ^ floorlog 10 n"
    using floorlog_bounds[OF n0] by simp
  obtain k where k: "floorlog 10 n = Suc k" using fb by (cases "floorlog 10 n") auto
  have e: "dec_exp a = int k" using assms k by (simp add: dec_exp_def n_def)
  have rn: "real n = of_int \<lfloor>a\<rfloor>" using assms by (simp add: n_def)
  have "(10::real) ^ k \<le> real n"
    using fb k by (metis diff_Suc_1 of_nat_le_iff of_nat_numeral of_nat_power)
  moreover have "real n \<le> a" using rn by simp
  moreover have "a < real n + 1" using rn by linarith
  moreover have "real n + 1 \<le> (10::real) ^ Suc k"
    using fb k by (metis Suc_leI of_nat_Suc of_nat_le_iff of_nat_numeral of_nat_power add.commute)
  moreover have "(10::real) powi (int k + 1) = 10 ^ Suc k"
    using power_int_of_nat[of "10::real" "Suc k"] by (simp add: add.commute)
  ultimately show ?thesis unfolding e power_int_of_nat by linarith
qed

lemma dec_exp_lt1:
  assumes "0 < a" and "a < 1"
  shows "10 powi dec_exp a \<le> a \<and> a < 10 powi (dec_exp a + 1)"
proof -
  define y where "y = 1 / a"
  have y1: "1 < y" using assms by (simp add: y_def)
  define n where "n = nat (\<lceil>y\<rceil> - 1)"
  have c1: "1 < \<lceil>y\<rceil>" using y1 le_of_int_ceiling[of y] by linarith
  have rn: "real n = of_int \<lceil>y\<rceil> - 1" using c1 by (simp add: n_def)
  have n0: "0 < n" using c1 by (simp add: n_def)
  have fb: "10 ^ (floorlog 10 n - 1) \<le> n \<and> n < 10 ^ floorlog 10 n"
    using floorlog_bounds[OF n0] by simp
  obtain k where k: "floorlog 10 n = Suc k" using fb by (cases "floorlog 10 n") auto
  have e: "dec_exp a = - int (Suc k)" using assms k by (simp add: dec_exp_def n_def y_def)
  have lo: "(10::real) ^ k \<le> real n"
    using fb k by (metis diff_Suc_1 of_nat_le_iff of_nat_numeral of_nat_power)
  have hi: "real n + 1 \<le> (10::real) ^ Suc k"
    using fb k by (metis Suc_leI of_nat_Suc of_nat_le_iff of_nat_numeral of_nat_power add.commute)
  have "y \<le> real n + 1" using rn by linarith
  then have "y \<le> 10 ^ Suc k" using hi by linarith
  then have l: "1 / 10 ^ Suc k \<le> a"
    using assms by (simp add: y_def field_simps del: power_Suc)
  have "10 ^ k < y" using lo rn by linarith
  then have u: "a < 1 / 10 ^ k" using assms by (simp add: y_def field_simps)
  have "- int (Suc k) + 1 = - int k" by simp
  then have "(10::real) powi (- int (Suc k) + 1) = 1 / 10 ^ k"
    by (simp only: power_int_minus_divide power_int_of_nat)
  moreover have "(10::real) powi (- int (Suc k)) = 1 / 10 ^ Suc k"
    by (simp only: power_int_minus_divide power_int_of_nat)
  ultimately show ?thesis unfolding e using l u by simp
qed

lemma dec_exp_bounds:
  assumes "0 < a"
  shows "10 powi dec_exp a \<le> a \<and> a < 10 powi (dec_exp a + 1)"
  using dec_exp_ge1 dec_exp_lt1 assms by (cases "1 \<le> a") auto

lemma round_even_floor: "\<lfloor>q\<rfloor> \<le> round_even q \<and> round_even q \<le> \<lfloor>q\<rfloor> + 1"
  by (simp add: round_even_def Let_def)

lemma round_even_err: "\<bar>of_int (round_even q) - q\<bar> \<le> 1 / 2"
  unfolding round_even_def Let_def by (simp split: if_split)

lemma scaled_bounds:
  assumes "x \<noteq> 0"
  shows "10 ^ p \<le> \<bar>x\<bar> / 10 powi (dec_exp \<bar>x\<bar> - int p)
       \<and> \<bar>x\<bar> / 10 powi (dec_exp \<bar>x\<bar> - int p) < 10 ^ (p + 1)"
proof -
  define e where "e = dec_exp \<bar>x\<bar>"
  have b: "10 powi e \<le> \<bar>x\<bar> \<and> \<bar>x\<bar> < 10 powi (e + 1)"
    using dec_exp_bounds[of "\<bar>x\<bar>"] assms by (simp add: e_def)
  have d: "(10::real) powi (e - int p) > 0" by simp
  have "(10::real) ^ p * 10 powi (e - int p) = 10 powi e"
    by (simp flip: power_int_add power_int_of_nat)
  moreover have "(10::real) ^ (p + 1) * 10 powi (e - int p) = 10 powi (e + 1)"
    by (simp add: add.commute flip: power_int_add power_int_of_nat)
  ultimately show ?thesis using b d unfolding e_def[symmetric]
    by (simp add: le_divide_eq divide_less_eq)
qed

lemma round_scaled_bounds:
  assumes "x \<noteq> 0"
  shows "10 ^ p \<le> round_even (\<bar>x\<bar> / 10 powi (dec_exp \<bar>x\<bar> - int p))
       \<and> round_even (\<bar>x\<bar> / 10 powi (dec_exp \<bar>x\<bar> - int p)) \<le> 10 ^ (p + 1)"
proof -
  define q where "q = \<bar>x\<bar> / 10 powi (dec_exp \<bar>x\<bar> - int p)"
  have qb: "10 ^ p \<le> q \<and> q < 10 ^ (p + 1)" using scaled_bounds[OF assms] by (simp add: q_def)
  have "10 ^ p \<le> \<lfloor>q\<rfloor>" using qb by (metis le_floor_iff of_int_numeral of_int_power)
  moreover have "\<lfloor>q\<rfloor> < 10 ^ (p + 1)" using qb by (metis floor_less_iff of_int_numeral of_int_power)
  ultimately show ?thesis using round_even_floor[of q] unfolding q_def[symmetric] by linarith
qed

lemma sci_round_normal:
  assumes "x \<noteq> 0" and "sci_round p x = (neg, m, e)"
  shows "neg = (x < 0) \<and> 10 ^ p \<le> m \<and> m < 10 ^ (p + 1)"
proof -
  define r where "r = round_even (\<bar>x\<bar> / 10 powi (dec_exp \<bar>x\<bar> - int p))"
  have rb: "int (10 ^ p) \<le> r \<and> r \<le> int (10 ^ (p + 1))"
    using round_scaled_bounds[OF assms(1), of p] by (simp add: r_def)
  then have nb: "10 ^ p \<le> nat r \<and> nat r \<le> 10 ^ (p + 1)"
    by (simp only: le_nat_iff nat_le_iff) simp
  have d: "sci_round p x = (if nat r = 10 ^ (p + 1) then (x < 0, 10 ^ p, dec_exp \<bar>x\<bar> + 1)
                            else (x < 0, nat r, dec_exp \<bar>x\<bar>))"
    using assms(1) by (simp add: sci_round_def Let_def r_def)
  show ?thesis
  proof (cases "nat r = 10 ^ (p + 1)")
    case True
    then have "sci_round p x = (x < 0, 10 ^ p, dec_exp \<bar>x\<bar> + 1)" using d by simp
    then show ?thesis using assms(2) by simp
  next
    case False
    then show ?thesis using assms(2) d nb by simp
  qed
qed

lemma sci_round_mant_lt: "fst (snd (sci_round p x)) < 10 ^ (p + 1)"
proof (cases "x = 0")
  case False
  obtain neg m e where "sci_round p x = (neg, m, e)" by (cases "sci_round p x") auto
  then show ?thesis using sci_round_normal[OF False] by simp
qed (simp add: sci_round_def)

lemma sci_round_value:
  assumes "x \<noteq> 0"
  shows "sci_value p (sci_round p x)
         = sgn x * of_int (round_even (\<bar>x\<bar> / 10 powi (dec_exp \<bar>x\<bar> - int p)))
           * 10 powi (dec_exp \<bar>x\<bar> - int p)"
proof -
  define e where "e = dec_exp \<bar>x\<bar>"
  define r where "r = round_even (\<bar>x\<bar> / 10 powi (e - int p))"
  have "(0::int) \<le> 10 ^ p" by simp
  then have r0: "0 \<le> r" using round_scaled_bounds[OF assms, of p] unfolding r_def e_def by linarith
  have d: "sci_round p x = (if nat r = 10 ^ (p + 1) then (x < 0, 10 ^ p, e + 1) else (x < 0, nat r, e))"
    using assms by (simp add: sci_round_def Let_def r_def e_def)
  have s: "(if x < 0 then -1 else 1) = sgn x" using assms by (simp add: sgn_if)
  show ?thesis
  proof (cases "nat r = 10 ^ (p + 1)")
    case True
    then have ri: "of_int r = (10::real) ^ (p + 1)" using r0
      by (metis of_int_of_nat_eq of_nat_nat of_nat_numeral of_nat_power)
    have "(10::real) ^ p * 10 powi (e + 1 - int p) = 10 ^ (p + 1) * 10 powi (e - int p)"
      by (simp add: algebra_simps flip: power_int_add power_int_of_nat)
    then show ?thesis using True d s ri by (simp add: sci_value_def e_def[symmetric] r_def[symmetric])
  next
    case False
    then show ?thesis using d s r0 by (simp add: sci_value_def e_def[symmetric] r_def[symmetric])
  qed
qed

lemma sci_round_error: "\<bar>sci_value p (sci_round p x) - x\<bar> \<le> \<bar>x\<bar> / (2 * 10 ^ p)"
proof (cases "x = 0")
  case True
  then show ?thesis by (simp add: sci_round_def sci_value_def)
next
  case False
  define e where "e = dec_exp \<bar>x\<bar>"
  define P where "P = (10::real) powi (e - int p)"
  define q where "q = \<bar>x\<bar> / P"
  define r where "r = (of_int (round_even q) :: real)"
  have P0: "0 < P" by (simp add: P_def)
  have ax: "\<bar>x\<bar> = q * P" using P0 by (simp add: q_def)
  have v: "sci_value p (sci_round p x) = sgn x * (r * P)"
    using sci_round_value[OF False, of p] by (simp add: P_def q_def e_def r_def)
  have "sci_value p (sci_round p x) - x = sgn x * (r * P) - sgn x * \<bar>x\<bar>"
    using v by (simp add: sgn_mult_abs)
  also have "\<dots> = sgn x * (P * (r - q))" using ax by (simp add: algebra_simps)
  finally have "\<bar>sci_value p (sci_round p x) - x\<bar> = P * \<bar>r - q\<bar>"
    using False P0 by (simp add: abs_mult abs_sgn_eq)
  also have "\<dots> \<le> P * (1 / 2)" using round_even_err[of q] P0 unfolding r_def by (intro mult_left_mono) auto
  also have "P * (1 / 2) = 10 powi e / (2 * 10 ^ p)" by (simp add: P_def power_int_diff)
  also have "10 powi e / (2 * 10 ^ p) \<le> \<bar>x\<bar> / (2 * 10 ^ p)"
    using dec_exp_bounds[of "\<bar>x\<bar>"] False by (intro divide_right_mono) (simp_all add: e_def)
  finally show ?thesis .
qed

subsection \<open>Printing and reading digits\<close>

lemma of_char_digit_char: "d < 10 \<Longrightarrow> (of_char (digit_char d) :: nat) = 48 + d"
  by (simp add: digit_char_def)

lemma is_digit_digit_char: "d < 10 \<Longrightarrow> is_digit (digit_char d)"
  by (simp add: is_digit_def of_char_digit_char)

lemma is_digit_not_sep:
  "is_digit c \<Longrightarrow> c \<noteq> CHR ''e'' \<and> c \<noteq> CHR ''.'' \<and> c \<noteq> CHR '' '' \<and> c \<noteq> CHR ''-''"
  by (auto simp: is_digit_def)

lemma digits_of_digits: "list_all is_digit (digits_of n)"
  by (induction n rule: digits_of.induct) (subst digits_of.simps, simp add: is_digit_digit_char)

lemma digits_of_nonempty: "digits_of n \<noteq> []"
  by (subst digits_of.simps) simp

lemma foldl_digits_of: "foldl (\<lambda>n c. 10 * n + (of_char c - 48)) 0 (digits_of n) = n"
  by (induction n rule: digits_of.induct) (subst digits_of.simps, simp add: of_char_digit_char)

lemma foldl_zeros: "foldl (\<lambda>n c. 10 * n + (of_char c - 48)) 0 (replicate k (CHR ''0'')) = (0::nat)"
  by (induction k) simp_all

lemma length_digits_of_le: "n < 10 ^ k \<Longrightarrow> 0 < k \<Longrightarrow> length (digits_of n) \<le> k"
proof (induction n arbitrary: k rule: digits_of.induct)
  case (1 n)
  show ?case
  proof (cases "n < 10")
    case False
    then obtain k' where k: "k = Suc k'" and "0 < k'"
      using "1.prems" by (cases k; cases "k - 1") (auto simp: not_less)
    then have "n div 10 < 10 ^ k'" using "1.prems" by (simp add: less_mult_imp_div_less mult.commute)
    then show ?thesis using "1.IH" False \<open>0 < k'\<close> k by (subst digits_of.simps) simp
  qed (use "1.prems" in \<open>subst digits_of.simps, simp\<close>)
qed

lemma digits_pad_digits: "list_all is_digit (digits_pad k n)"
proof -
  have "is_digit (CHR ''0'')" by (simp add: is_digit_def)
  then show ?thesis using digits_of_digits[of n]
    by (auto simp: digits_pad_def list_all_iff set_replicate_conv_if)
qed

lemma digits_pad_nonempty: "digits_pad k n \<noteq> []"
  by (simp add: digits_pad_def digits_of_nonempty)

lemma read_nat_digits_pad: "read_nat (digits_pad k n) = Some n"
  using digits_pad_digits[of k n] digits_pad_nonempty[of k n]
  by (simp add: read_nat_def digits_pad_def foldl_zeros foldl_digits_of)

lemma length_digits_pad: "n < 10 ^ k \<Longrightarrow> 0 < k \<Longrightarrow> length (digits_pad k n) = k"
  using length_digits_of_le[of n k] by (simp add: digits_pad_def)

subsection \<open>Reading the printed text\<close>

lemma dropWhile_replicate_append:
  "dropWhile (\<lambda>c. c = a) (replicate k a @ ys) = dropWhile (\<lambda>c. c = a) ys"
  by (induction k) simp_all

lemma parse_e_layout:
  assumes d: "is_digit d" and fp: "list_all is_digit fp" and M: "read_nat (d # fp) = Some M"
    and E: "read_nat ed = Some E" and sc: "sc = CHR ''+'' \<or> sc = CHR ''-''"
  shows "parse_e (replicate k (CHR '' '') @ (if neg then ''-'' else [])
                  @ d # (if fp = [] then [] else CHR ''.'' # fp) @ CHR ''e'' # sc # ed)
       = Some ((if neg then -1 else 1) * real M
               * 10 powi ((if sc = CHR ''-'' then - int E else int E) - int (length fp)))"
proof -
  define mant where "mant = d # (if fp = [] then [] else CHR ''.'' # fp)"
  define u where "u = mant @ CHR ''e'' # sc # ed"
  have dn: "d \<noteq> CHR ''e'' \<and> d \<noteq> CHR ''.'' \<and> d \<noteq> CHR '' '' \<and> d \<noteq> CHR ''-''"
    using is_digit_not_sep[OF d] .
  have fpn: "\<forall>c\<in>set fp. c \<noteq> CHR ''e''" using fp is_digit_not_sep by (auto simp: list_all_iff)
  have s1: "dropWhile (\<lambda>c. c = CHR '' '') (replicate k (CHR '' '') @ (if neg then ''-'' else []) @ u)
            = (if neg then ''-'' else []) @ u"
    using dn by (simp add: dropWhile_replicate_append u_def mant_def)
  have s2: "(take 1 ((if neg then ''-'' else []) @ u) = ''-'') = neg"
    using dn by (simp add: u_def mant_def)
  have s3: "(if neg then drop 1 ((if neg then ''-'' else []) @ u) else (if neg then ''-'' else []) @ u) = u"
    by simp
  have s4: "takeWhile (\<lambda>c. c \<noteq> CHR ''e'') u = mant"
    using dn fpn by (auto simp: u_def mant_def takeWhile_append2)
  have s5: "drop (Suc (length mant)) u = sc # ed" by (simp add: u_def)
  have s6: "takeWhile (\<lambda>c. c \<noteq> CHR ''.'') mant = [d]" using dn by (simp add: mant_def)
  have s7: "drop (Suc (length [d])) mant = fp" by (simp add: mant_def)
  have s8: "length mant \<noteq> length u" by (simp add: u_def)
  have "parse_e (replicate k (CHR '' '') @ (if neg then ''-'' else []) @ u)
       = Some ((if neg then -1 else 1) * real M
               * 10 powi ((if sc = CHR ''-'' then - int E else int E) - int (length fp)))"
    unfolding parse_e_def Let_def s1 s2 s3 s4 s5 s6 s7 using s8 sc M E by auto
  then show ?thesis by (simp add: u_def mant_def)
qed

lemma parse_format_e: "parse_e (format_e fs x) = Some (sci_value (fs_prec fs) (sci_round (fs_prec fs) x))"
proof -
  define p where "p = fs_prec fs"
  obtain neg m e where sr: "sci_round p x = (neg, m, e)" by (cases "sci_round p x") auto
  define ds where "ds = digits_pad (p + 1) m"
  define ed where "ed = digits_pad 2 (nat \<bar>e\<bar>)"
  define sc where "sc = (if e < 0 then CHR ''-'' else CHR ''+'')"
  have "m < 10 ^ (p + 1)" using sci_round_mant_lt[of p x] sr by simp
  then have len: "length ds = p + 1" by (simp add: ds_def length_digits_pad)
  then have dsc: "ds = hd ds # tl ds" by (cases ds) auto
  have dig: "is_digit (hd ds) \<and> list_all is_digit (tl ds)"
    using digits_pad_digits[of "p + 1" m] dsc unfolding ds_def[symmetric] by (metis list.pred_inject(2))
  have rm: "read_nat (hd ds # tl ds) = Some m" using dsc read_nat_digits_pad by (simp add: ds_def)
  have p0: "(p = 0) = (tl ds = [])" using len by (cases ds) auto
  have body: "format_e fs x = replicate (fs_width fs - length ((if neg then ''-'' else []) @ [hd ds]
                 @ (if p = 0 then [] else CHR ''.'' # tl ds) @ CHR ''e'' # sc # ed)) (CHR '' '')
              @ (if neg then ''-'' else []) @ hd ds # (if tl ds = [] then [] else CHR ''.'' # tl ds)
              @ CHR ''e'' # sc # ed"
    unfolding format_e_def e_body_def pad_left_def p_def[symmetric] sr prod.case Let_def
      ds_def[symmetric] ed_def[symmetric] sc_def[symmetric] using p0 by simp
  have "parse_e (format_e fs x)
        = Some ((if neg then -1 else 1) * real m
                * 10 powi ((if sc = CHR ''-'' then - int (nat \<bar>e\<bar>) else int (nat \<bar>e\<bar>)) - int (length (tl ds))))"
    unfolding body using dig rm read_nat_digits_pad[of 2 "nat \<bar>e\<bar>"]
    by (intro parse_e_layout) (auto simp: ed_def sc_def)
  also have "\<dots> = Some (sci_value p (sci_round p x))"
    using len sr by (simp add: sc_def sci_value_def)
  finally show ?thesis by (simp add: p_def)
qed

lemma sci_round_sign: "fst (sci_round p x) = (x < 0)"
proof (cases "x = 0")
  case False
  obtain neg m e where "sci_round p x = (neg, m, e)" by (cases "sci_round p x") auto
  then show ?thesis using sci_round_normal[OF False] by simp
qed (simp add: sci_round_def)

lemma length_e_body:
  assumes "\<bar>snd (snd (sci_round p x))\<bar> < 100"
  shows "length (e_body p x) = (if x < 0 then 1 else 0) + p + 1 + (if p = 0 then 0 else 1) + 4"
proof -
  obtain neg m e where sr: "sci_round p x = (neg, m, e)" by (cases "sci_round p x") auto
  have "m < 10 ^ (p + 1)" using sci_round_mant_lt[of p x] sr by simp
  then have l1: "length (digits_pad (p + 1) m) = p + 1" by (simp add: length_digits_pad)
  have "nat \<bar>e\<bar> < 10 ^ 2" using assms sr by simp
  then have l2: "length (digits_pad 2 (nat \<bar>e\<bar>)) = 2" by (rule length_digits_pad) simp
  have "neg = (x < 0)" using sci_round_sign[of p x] sr by simp
  moreover have "length (tl (digits_pad (p + 1) m)) = p" using l1 by simp
  ultimately show ?thesis using l2 sr
    by (cases neg; cases "p = 0") (simp_all add: e_body_def Let_def split del: if_split)
qed

lemma sci_round_two_five: "sci_round 5 (2::real) = (False, 200000, 0)"
  by (simp add: sci_round_def dec_exp_def compute_floorlog round_even_def)

lemma display_stats_InrD:
  assumes "display_stats fs sts de = Inr ss"
  shows "\<exists>vs. fitness_stats sts de = Inr vs \<and> ss = map (format_e fs) vs"
  using assms by (auto simp: display_stats_def)

lemma demo_min_max_avg: "fitness_stats [StatMin, StatMax, StatAvg] demo_de = Inr [2, 7, 17/4]"
proof -
  have f: "so_fitness demo_de = [5, 3, 2, 7]" by (simp add: demo_de_def so_fitness_def)
  show ?thesis
    by (simp add: fitness_stats_def f) (simp add: demo_de_def is_SoDE_def list_min_def list_max_def mean_def)
qed

lemma sci_round_seven_five: "sci_round 5 (7::real) = (False, 700000, 0)"
  by (simp add: sci_round_def dec_exp_def compute_floorlog round_even_def)

subsection \<open>Properties of the display\<close>

text \<open>
  C15: reading back the displayed statistics gives exactly the statistics of the evolver
  rounded to \<open>p + 1\<close> significant digits (\<open>p\<close> the precision of \<open>stats_fmt\<close>): the display is
  the printing of \<open>fitness_stats\<close> and nothing is lost but the rounding.
\<close>

theorem display_stats_roundtrip:
  assumes "display_stats fs sts de = Inr ss"
  shows "\<exists>vs. fitness_stats sts de = Inr vs
             \<and> map parse_e ss = map (\<lambda>v. Some (sci_value (fs_prec fs) (sci_round (fs_prec fs) v))) vs"
  using display_stats_InrD[OF assms] by (auto simp: parse_format_e)

theorem display_stats_roundtrip_witness:
  "\<exists>ss. display_stats default_stats_fmt [StatMin, StatMax] demo_de = Inr ss
        \<and> map parse_e ss = [Some 2, Some 7]"
proof -
  have st: "fitness_stats [StatMin, StatMax] demo_de = Inr [2, 7]"
    using demo_min_max_avg by (simp add: fitness_stats_def split: if_splits)
  define ss where "ss = map (format_e default_stats_fmt) [2, 7]"
  have d: "display_stats default_stats_fmt [StatMin, StatMax] demo_de = Inr ss"
    by (simp add: display_stats_def st ss_def)
  have "map parse_e ss = map (\<lambda>v. Some (sci_value 5 (sci_round 5 v))) [2, 7]"
    using display_stats_roundtrip[OF d] st by (simp add: default_stats_fmt_def)
  then have "map parse_e ss = [Some 2, Some 7]"
    by (simp add: sci_round_two_five sci_round_seven_five sci_value_def)
  then show ?thesis using d by (intro exI[of _ ss] conjI)
qed

text \<open>
  C16: every displayed statistic reads back as a number within a relative error of
  \<open>1 / (2 \<cdot> 10^p)\<close> of the statistic it displays (\<open>5 \<cdot> 10^-6\<close> for the default \<open>"10.5e"\<close>).
\<close>

theorem display_stats_accuracy:
  assumes "display_stats fs sts de = Inr ss"
  shows "\<exists>vs. fitness_stats sts de = Inr vs
             \<and> list_all2 (\<lambda>s v. \<exists>r. parse_e s = Some r \<and> \<bar>r - v\<bar> \<le> \<bar>v\<bar> / (2 * 10 ^ fs_prec fs)) ss vs"
  using display_stats_InrD[OF assms]
  by (auto simp: list_all2_map1 list.rel_refl parse_format_e sci_round_error)

theorem display_stats_accuracy_witness:
  "\<exists>ss. display_stats default_stats_fmt [StatAvg] demo_de = Inr ss
        \<and> (\<exists>r. parse_e (hd ss) = Some r \<and> \<bar>r - 17 / 4\<bar> \<le> 17 / 4 / 200000)"
proof -
  have st: "fitness_stats [StatAvg] demo_de = Inr [17 / 4]"
    using demo_min_max_avg by (simp add: fitness_stats_def split: if_splits)
  define ss where "ss = map (format_e default_stats_fmt) [17 / 4]"
  have d: "display_stats default_stats_fmt [StatAvg] demo_de = Inr ss"
    by (simp add: display_stats_def st ss_def)
  have "list_all2 (\<lambda>s v. \<exists>r. parse_e s = Some r \<and> \<bar>r - v\<bar> \<le> \<bar>v\<bar> / (2 * 10 ^ 5)) ss [17 / 4]"
    using display_stats_accuracy[OF d] st by (simp add: default_stats_fmt_def)
  then have "\<exists>r. parse_e (hd ss) = Some r \<and> \<bar>r - 17 / 4\<bar> \<le> 17 / 4 / 200000"
    by (simp add: ss_def mult.commute)
  then show ?thesis using d by (intro exI[of _ ss] conjI)
qed

text \<open>
  C24: the default \<open>stats_fmt = "10.5e"\<close> never pads: for every value whose decimal exponent
  has at most two digits the field is the bare conversion, 11 characters for a nonnegative
  value and 12 for a negative one, wider than the declared width 10.
\<close>

theorem default_stats_fmt_width:
  assumes "\<bar>snd (snd (sci_round 5 x))\<bar> < 100"
  shows "format_e default_stats_fmt x = e_body 5 x
         \<and> length (format_e default_stats_fmt x) = (if x < 0 then 12 else 11)"
  using length_e_body[OF assms]
  by (simp add: format_e_def pad_left_def default_stats_fmt_def)

theorem default_stats_fmt_width_witness:
  "\<bar>snd (snd (sci_round 5 (2::real)))\<bar> < 100
   \<and> format_e default_stats_fmt 2 = e_body 5 2 \<and> length (format_e default_stats_fmt 2) = 11"
proof -
  have h: "\<bar>snd (snd (sci_round 5 (2::real)))\<bar> < 100" by (simp add: sci_round_two_five)
  note w = default_stats_fmt_width[OF h]
  have "length (format_e default_stats_fmt (2::real)) = 11" using conjunct2[OF w] by simp
  then show ?thesis using h conjunct1[OF w] by blast
qed

end
