(* ===== verification/DE_Trace.thy ===== *)
theory DE_Trace
  imports DE_Evolve DE_Format
begin

text \<open>
  \<open>evolve!\<close> with its display: after each generation the statistics of the \<open>stats\<close>
  keyword are printed with \<open>stats_fmt\<close>. \<open>run_gens_log\<close> and \<open>evolve_log\<close> are
  \<open>run_gens\<close> and \<open>evolve\<close> with the displayed lines collected, one list of texts per
  generation. The lemmas show that the display never changes what the loop computes
  (forgetting the log gives \<open>evolve\<close> back, errors included) and that the log has one line
  per generation, the last showing the statistics of the returned evolver.
\<close>

type_synonym display_log = "string list list"

fun run_gens_log :: "'g rng \<Rightarrow> 'g evolve_kw \<Rightarrow> format_spec \<Rightarrow> evaluator \<Rightarrow> nat \<Rightarrow> std_de \<times> 'g
                       \<Rightarrow> ((std_de \<times> 'g) \<times> display_log) result" where
  "run_gens_log r kw fs ev 0 st = Inr (st, [])"
| "run_gens_log r kw fs ev (Suc k) st =
     bind_r (run_gens_log r kw fs ev k st) (\<lambda>(st1, dl).
     bind_r (de_generation r kw ev st1) (\<lambda>st2.
     bind_r (display_stats fs (stats kw) (fst st2)) (\<lambda>line. Inr (st2, dl @ [line]))))"

definition evolve_log :: "'g rng \<Rightarrow> 'g evolve_kw \<Rightarrow> format_spec \<Rightarrow> std_de \<Rightarrow> evaluator \<Rightarrow> nat \<Rightarrow> 'g
                            \<Rightarrow> ((std_de \<times> 'g) \<times> display_log) result" where
  "evolve_log r kw fs de ev ngen g =
     (if \<not> is_SoDE de then Inl MethodError
      else if length (pop de) < 4 then Inl InvalidConfiguration
      else bind_r (eval_all ev (pop de)) (\<lambda>fv. run_gens_log r kw fs ev ngen (de\<lparr>fitness := AVec fv\<rparr>, g)))"

subsection \<open>The display never fails inside the loop\<close>

lemma display_stats_consistent:
  assumes "fitness_consistent ev de" and "pop de \<noteq> []"
  shows "display_stats fs sts de
         = Inr (map (format_e fs) (map (stat_value (so_sense de) (so_fitness de)) sts))"
proof -
  have "so_fitness de \<noteq> []" using assms list_all2_lengthD[of _ "pop de" "so_fitness de"]
    by (auto simp: fitness_consistent_def)
  then show ?thesis using assms(1)
    by (simp add: display_stats_def fitness_stats_def fitness_consistent_def)
qed

lemma run_gens_log_refines:
  assumes "fitness_consistent ev de" and "pop de \<noteq> []"
  shows "map_sum id fst (run_gens_log r kw fs ev k (de, g)) = run_gens r kw ev k (de, g)"
proof (induction k)
  case (Suc k)
  show ?case
  proof (cases "run_gens_log r kw fs ev k (de, g)")
    case (Inl e)
    then have "run_gens r kw ev k (de, g) = Inl e" using Suc.IH by simp
    then show ?thesis using Inl by simp
  next
    case (Inr x)
    obtain de1 g1 dl where x: "x = ((de1, g1), dl)" by (cases x) auto
    have run1: "run_gens r kw ev k (de, g) = Inr (de1, g1)" using Suc.IH Inr x by simp
    show ?thesis
    proof (cases "de_generation r kw ev (de1, g1)")
      case (Inl e)
      then show ?thesis using Inr x run1 by simp
    next
      case (Inr st2)
      obtain de2 g2 where st2: "st2 = (de2, g2)" by (cases st2) auto
      have run2: "run_gens r kw ev (Suc k) (de, g) = Inr (de2, g2)" using run1 Inr st2 by simp
      have "fitness_consistent ev de2" by (rule run_gens_consistent[OF run2 assms(1)])
      moreover have "pop de2 \<noteq> []" using run_gens_pop_length[OF run2] assms(2) by auto
      ultimately show ?thesis using \<open>run_gens_log r kw fs ev k (de, g) = Inr x\<close> x run1 Inr st2
        by (simp add: display_stats_consistent)
    qed
  qed
qed simp

lemma run_gens_log_lines:
  assumes "fitness_consistent ev de" and "pop de \<noteq> []"
  shows "run_gens_log r kw fs ev k (de, g) = Inr ((de', g'), dl) \<Longrightarrow>
         length dl = k \<and> (\<forall>line \<in> set dl. length line = length (stats kw))
         \<and> (0 < k \<longrightarrow> display_stats fs (stats kw) de' = Inr (last dl))"
proof (induction k arbitrary: de' g' dl)
  case (Suc k)
  then obtain de1 g1 dl1 line where l1: "run_gens_log r kw fs ev k (de, g) = Inr ((de1, g1), dl1)"
    and gen: "de_generation r kw ev (de1, g1) = Inr (de', g')"
    and d: "display_stats fs (stats kw) de' = Inr line" and dl: "dl = dl1 @ [line]"
    by (auto split: prod.splits)
  have "run_gens r kw ev k (de, g) = Inr (de1, g1)"
    using run_gens_log_refines[OF assms, of r kw fs k g] l1 by simp
  then have run2: "run_gens r kw ev (Suc k) (de, g) = Inr (de', g')" using gen by simp
  have "pop de' \<noteq> []" using run_gens_pop_length[OF run2] assms(2) by auto
  then have "length line = length (stats kw)"
    using d display_stats_consistent[OF run_gens_consistent[OF run2 assms(1)]] by auto
  then show ?case using Suc.IH[OF l1] d dl by auto
qed simp

lemma evolve_log_start:
  assumes "is_SoDE de" and "4 \<le> length (pop de)" and "eval_all ev (pop de) = Inr fv"
  shows "fitness_consistent ev (de\<lparr>fitness := AVec fv\<rparr>) \<and> pop (de\<lparr>fitness := AVec fv\<rparr>) \<noteq> []"
  using eval_all_consistent[OF assms(1,3)] assms(2) by auto

subsection \<open>Properties of the display of the loop\<close>

text \<open>
  The display is a pure observer of the loop: forgetting the displayed lines,
  \<open>evolve!\<close> with its per-generation display returns exactly what \<open>evolve\<close> returns,
  the same evolver and generator on success and the same error otherwise, for any
  strategies, statistics and format.
\<close>

theorem evolve_log_refines:
  "map_sum id fst (evolve_log r kw fs de ev ngen g) = evolve r kw de ev ngen g"
proof (cases "is_SoDE de \<and> 4 \<le> length (pop de)")
  case True
  show ?thesis
  proof (cases "eval_all ev (pop de)")
    case (Inr fv)
    have c: "fitness_consistent ev (de\<lparr>fitness := AVec fv\<rparr>) \<and> pop (de\<lparr>fitness := AVec fv\<rparr>) \<noteq> []"
      using True Inr by (intro evolve_log_start) simp_all
    show ?thesis
      using run_gens_log_refines[OF conjunct1[OF c] conjunct2[OF c], of r kw fs ngen g] True Inr
      by (simp add: evolve_log_def evolve_def)
  qed (use True in \<open>simp add: evolve_log_def evolve_def\<close>)
qed (auto simp: evolve_log_def evolve_def)

lemma evolve_log_lines:
  assumes "evolve_log r kw fs de ev ngen g = Inr ((de', g'), dl)"
  shows "length dl = ngen \<and> (\<forall>line \<in> set dl. length line = length (stats kw))
         \<and> (0 < ngen \<longrightarrow> display_stats fs (stats kw) de' = Inr (last dl))"
proof -
  obtain fv where so: "is_SoDE de" and n4: "4 \<le> length (pop de)"
    and fv: "eval_all ev (pop de) = Inr fv"
    and run: "run_gens_log r kw fs ev ngen (de\<lparr>fitness := AVec fv\<rparr>, g) = Inr ((de', g'), dl)"
    using assms by (auto simp: evolve_log_def split: if_splits)
  note c = evolve_log_start[OF so n4 fv]
  show ?thesis by (rule run_gens_log_lines[OF conjunct1[OF c] conjunct2[OF c] run])
qed

end
