(* ===== verification/Spec2Isabelle.thy ===== *)
theory Spec2Isabelle
  imports DE_Generation DE_Snapshot DE_Trace
begin

text \<open>
  \<^bold>\<open>A verification library for DifferentialEvolution.jl\<close>

  \<^medskip>
  \<^emph>\<open>The program.\<close> DifferentialEvolution.jl is a single-population Differential Evolution
  optimiser. The repository's sources under \<open>src/\<close> are its generated documentation index,
  \<open>src/docs/build/search_index.js\<close>, whose entries carry the package's docstrings and
  interface code: the \<open>Evolver\<close>/\<open>DEEvolver\<close> types, the five accessors
  \<open>pop, fitness, senses, bounds, options\<close>, the \<open>StdDE\<close> struct and its outer
  constructor, \<open>StdOptions\<close>, \<open>nindividuals\<close>, \<open>ndims\<close>, \<open>nobjectives\<close>,
  \<open>best_individual\<close>, \<open>best_fitness\<close>, \<open>sort!\<close>, \<open>mutate_rand_1!\<close>,
  \<open>crossover_binomial!\<close>, \<open>evolve!\<close> and the type aliases \<open>ASoV\<close>, \<open>AVoM\<close>. The Julia
  bodies of the operators are not in the sources: what the documentation fixes (signatures,
  fields, dispatch, keyword defaults, ordering conventions) is modelled from it, and the
  arithmetic of the operators (the DE/rand/1 donor, the binomial gene rule, the bounce-back
  formula, greedy selection) from the specification, and marked so in the manifest.

  \<^medskip>
  \<^emph>\<open>How the parts interact.\<close> \<open>evolve!\<close> owns the evolver; per generation it visits every
  individual \<open>i\<close> in order and runs mutation, crossover, boundary repair, one evaluator call
  and selection, writing the result into slot \<open>i\<close> in place (later donors see it). The
  operators are strategies passed as keyword arguments; ranking and statistics read the
  evolver and never write it. Randomness is one explicit generator threaded through all
  calls.

  \<^medskip>
  \<^emph>\<open>Theories.\<close>
  \<^item> \<open>DE_Prelude\<close>: vectors, populations, bounds; the error type \<open>de_error\<close> (Julia's
    exceptions: \<open>InvalidConfiguration\<close>, \<open>DimensionMismatch\<close>, \<open>EvaluatorFailure\<close>,
    \<open>ArgumentError\<close>, \<open>MethodError\<close>) and the bind \<open>bind_r\<close> of \<open>de_error + 'a\<close>; the
    generator record \<open>rng\<close> (\<open>rand()\<close> and \<open>rand(1:n)\<close>) with its contract \<open>rng_ok\<close>;
    the box predicate \<open>within_bounds\<close>; \<open>strength\<close> (fitness times sense).
  \<^item> \<open>DE_Options\<close>: \<open>StdOptions\<close> as a record \<open>std_options\<close> (\<open>F\<close>, \<open>Cr\<close>) and its
    validating constructor.
  \<^item> \<open>DE_Model\<close>: \<open>StdDE\<close> as the record \<open>std_de\<close>, \<open>ASoV\<close>/\<open>AVoM\<close> as datatypes,
    the derived queries, well-formedness \<open>std_de_wf\<close>, the constructor \<open>StdDE\<close> (uniform
    sampling in the box, variant chosen by the shape of \<open>senses\<close>) and the
    single-objective views \<open>is_SoDE\<close>, \<open>so_sense\<close>, \<open>so_fitness\<close>.
  \<^item> \<open>DE_Mutation\<close>: \<open>mutate_rand_1_low\<close> (the lower-level method taking an index
    permutation), the Fisher-Yates \<open>shuffle\<close> and \<open>mutate_rand_1\<close> on an evolver.
  \<^item> \<open>DE_Crossover\<close>: \<open>crossover_binomial\<close> on vectors and on an evolver, and the abstract
    operation \<open>binomial_mix\<close> it refines.
  \<^item> \<open>DE_Boundary\<close>: \<open>bounce_back\<close>.
  \<^item> \<open>DE_Selection\<close>: greedy in-place \<open>select\<close>.
  \<^item> \<open>DE_Ranking\<close>: \<open>best_individual\<close>, \<open>best_fitness\<close> and the stable \<open>sort_de\<close>.
  \<^item> \<open>DE_Stats\<close>: the statistics of the \<open>stats\<close> keyword of \<open>evolve!\<close>
    (\<open>stat\<close>, \<open>stat_value\<close>, \<open>fitness_stats\<close> over \<open>list_max\<close>, \<open>list_min\<close>,
    \<open>mean\<close>, \<open>std_dev\<close>).
  \<^item> \<open>DE_Format\<close>: the display of the statistics with \<open>stats_fmt\<close> (default
    \<open>default_stats_fmt\<close>, \<open>FormatSpec("10.5e")\<close>, as the record \<open>format_spec\<close>):
    \<open>display_stats\<close> formats each value of \<open>fitness_stats\<close> with Formatting.jl's \<open>e\<close>
    conversion \<open>format_e\<close> (rounding \<open>sci_round\<close> to \<open>p + 1\<close> significant digits with
    ties to even, the exponent \<open>dec_exp\<close> computed from digit counts, the text
    \<open>e_body\<close>, left padding \<open>pad_left\<close>); the reader \<open>parse_e\<close> and the value
    \<open>sci_value\<close> of a rounded triple state what the printed text means. Formatting.jl
    is an external library, neither code of this repository nor described by the spec
    (which leaves display formatting to external collaborators): \<open>format_e\<close> and its
    helpers model the library's documented \<open>e\<close> conversion as the interface the display
    calls, and only \<open>display_stats\<close> and \<open>default_stats_fmt\<close>, which translate the
    \<open>stats\<close>/\<open>stats_fmt\<close> docstring, are mapped to the sources.
  \<^item> \<open>DE_Evolve\<close>: the keyword record \<open>evolve_kw\<close> and \<open>default_kw\<close>, \<open>trial_step\<close>,
    \<open>de_iter\<close>, \<open>de_generation\<close>, \<open>run_gens\<close>, \<open>evolve\<close>; the loop invariant
    \<open>evo_inv\<close>, the crossover contract \<open>cx_ok\<close> and the relation \<open>dominates\<close>.
  \<^item> \<open>DE_Trace\<close>: \<open>evolve!\<close> with its display, \<open>run_gens_log\<close> and \<open>evolve_log\<close>:
    the loop of \<open>DE_Evolve\<close> that, after each generation, appends the text
    \<open>display_stats\<close> prints for the \<open>stats\<close> keyword; the generic preservation lemma
    \<open>run_gens_preserves\<close> of \<open>DE_Evolve\<close> carries the fact that the display never fails
    inside the loop (the \<open>stat\<close> datatype has only the five valid entries, so an invalid
    \<open>stats\<close> symbol cannot occur).
  \<^item> \<open>DE_Generation\<close>: one generation as the inductive step relation \<open>gen_step\<close> over
    phases \<open>Propose i\<close>, \<open>Evaluate i U\<close>, \<open>Decide i U f\<close>, \<open>GenDone\<close>, emitting
    the events \<open>Proposed\<close>, \<open>Evaluated\<close> (the evaluator call), \<open>Accepted\<close> and
    \<open>Rejected\<close>; its runs \<open>gen_steps\<close>, the run invariant \<open>gen_inv\<close> and the
    termination measure \<open>gen_measure\<close>.
  \<^item> \<open>DE_Snapshot\<close>: the generation with donors drawn from the generation-start population
    (\<open>de_generation_snap\<close>), the alternative of spec section 4.7; it keeps the same
    invariant (\<open>de_generation_snap_inv\<close>), and \<open>in_place_differs_from_snapshot\<close>
    exhibits an evolver on which the two generations differ.

  \<^medskip>
  \<^emph>\<open>What is proved.\<close> The loop (C1-C3): with the default strategies \<open>evolve\<close> always
  returns under its preconditions and keeps every individual in the box; for any crossover
  meeting \<open>cx_ok\<close> whatever it returns satisfies the invariant; the best fitness is
  monotone across generations. The operators (C4-C7, C14, C19): binomial crossover
  refines \<open>binomial_mix\<close> over a position set containing \<open>jrand\<close>; DE/rand/1 uses three
  pairwise distinct partners different from the target and rejects populations of fewer
  than four; bounce-back lands in the box; the shuffle is a permutation. Selection (C6)
  replaces exactly on not-worse trials. Ranking (C8-C10, C17): \<open>sort!\<close> puts the best
  first; the best individual is the first maximum and \<open>all = true\<close> returns exactly the
  ties; the statistics are ordered. Errors and construction (C11, C13, C18): the three
  error guards of \<open>evolve!\<close>; \<open>StdDE\<close> builds a well-formed evolver of the requested
  shape; \<open>StdOptions\<close> succeeds exactly on valid parameters. Whenever \<open>evolve!\<close> returns,
  every fitness value is the evaluator's value on its individual, for any strategies and
  any generation count (C12). Further ranking facts (C20-C22): \<open>sort!\<close> is exactly the
  stable sort by strength (it returns a rearrangement iff that is a sorted, key-stable
  permutation) and keeps the best fitness and configuration; the utilities reject a
  multi-objective evolver (MethodError) and an empty fitness (ArgumentError). The display
  of the statistics (C15, C16, C24): the displayed text reads back as the statistics
  rounded to \<open>p + 1\<close> significant digits, within a relative error of \<open>1 / (2 \<cdot> 10^p)\<close>,
  and the default \<open>"10.5e"\<close> field is 11 or 12 characters wide, never padded to its width
  10. The default statistics are the best and the mean fitness (C23). With the default
  strategies the only error after the start checks is an evaluator failure, and only for
  an evaluator undefined in the box (C25). The generation machine (C26-C28): the
  functional loop returns exactly the end states of the machine's runs; every completed
  run evaluates each individual exactly once in index order and decides each once; by rule
  induction over runs, the evaluator is only ever called on points of the box. Across
  components (this theory, C29): in the spec's end-to-end scenario construction and 200
  generations always succeed, stay in the box and end with a best fitness no worse than
  any initial individual. Operators completed branch by branch (C30-C32):
  \<open>mutate_rand_1!\<close> on an evolver on all three of its outcomes, bounce-back against the
  spec's per-gene contract \<open>gene_repaired\<close>, and the \<open>:std\<close> statistic, which is the
  square root of the halved mean squared pairwise difference with the \<open>n - 1\<close> divisor.
  Bounds (C33): every reported statistic lies within the fitness range, \<open>:std\<close> within
  the range times sqrt(n / (n - 1)). Further lemmas, not claims: the generation machine
  has no infinite run and a generation takes at most 3n + 3 steps; a vector of senses
  yields a StdMoDE with an n x m fitness matrix; \<open>evolve_log\<close> returns what \<open>evolve\<close>
  returns and prints one line per generation.

  \<^medskip>
  \<^emph>\<open>Findings.\<close> The spec says binomial crossover never returns the target unchanged;
  the gene rule it gives does whenever the donor agrees with the target at the forced
  index (lemma \<open>crossover_binomial_trial_can_equal_target\<close>). The spec says the
  cardinality of the senses selects the variant; the package selects by their shape
  (lemma \<open>single_sense_vector_is_multi_objective\<close>). The spec's round-trip property says
  that zero generations leave the sentinel fitness, but the \<open>evolve!\<close> docstring says each
  individual's fitness is evaluated; the model follows the docstring (C12). The docstrings
  leave open the range of \<open>F\<close>, the tie-break of \<open>best_individual\<close> and the order of ties
  in \<open>sort!\<close>; the model fixes each as the spec does. The spec also says both that donors
  come from the generation-start population (section 4.7) and that in-place update visible
  to later donors is the default (section 5); the model follows section 5, and
  \<open>DE_Snapshot\<close> proves that the two choices give different generations. The default
  \<open>stats_fmt\<close> declares a width of 10, which the \<open>"10.5e"\<close> conversion always exceeds,
  so columns of mixed-sign statistics do not line up (C24).

  \<^medskip>
  \<^emph>\<open>Choices.\<close> There is no fuel: every loop of the program runs a fixed number of times
  (genes, individuals, generations), so each is structural recursion and \<open>evolve\<close> is
  total; "returns" means returns \<open>Inr\<close>, which C1 proves. The generator contract
  \<open>rng_ok\<close> (draws in [0,1) and in [0,n)) is all the proofs need of randomness; the
  witnesses use a small deterministic generator. Fitness before the first evaluation is the
  sentinel 0 (Julia leaves it \<open>undef\<close>); \<open>evolve!\<close> evaluates the initial population
  before the first generation, so the sentinel never leaves \<open>evolve!\<close>. Reals are HOL reals, not floats: rounding is not
  modelled, except in the display, where the printed text is the exact value rounded
  to six significant digits. Julia's \<open>std\<close> of one value is NaN; the model gives 0 (never used by the loop,
  which needs four individuals).

  \<^medskip>
  \<^emph>\<open>Not modelled.\<close> The JavaScript wrapper of the search index (generated data); command-line and persistence (out of scope by the spec); the
  conversion types of Formatting.jl other than \<open>e\<close>, which the sources never use, and
  the values Inf and NaN, which HOL reals do not have. For the multi-objective variant the package defines construction and the queries,
  which are modelled; its \<open>evolve!\<close>, ranking and statistics exist for \<open>StdSoDE\<close> only,
  so a StdMoDE gets a \<open>MethodError\<close> there, as modelled. The Julia bodies of the
  operators are not in the sources, so the implementation lines the map can cover are the
  docstring entries of the index (one line of the three of \<open>search_index.js\<close>); the
  other two lines are the generated JavaScript wrapper.
\<close>

subsection \<open>Properties across components\<close>

lemma StdDE_evo_inv:
  assumes "rng_ok r" and "options_ok opt" and "StdDE r n bnds opt (Scalar s) g = Inr (de, g')"
  shows "evo_inv de"
  using StdDE_wf[OF assms] StdDE_InrD[OF assms(3)] by (simp add: evo_inv_def is_SoDE_def)

lemma eval_all_nth:
  "eval_all ev P = Inr fs \<Longrightarrow> j < length P \<Longrightarrow> ev (P ! j) = Some (fs ! j)"
proof (induction P arbitrary: fs j)
  case (Cons x P)
  then show ?case by (cases j) (auto split: option.splits)
qed simp

lemma best_fitness_dominates:
  assumes "evo_inv de'" and "dominates de de'" and "j < length (so_fitness de)"
  shows "\<exists>b. best_fitness de' = Inr b \<and> strength (so_sense de) (so_fitness de ! j) \<le> strength (so_sense de) b"
proof -
  have l: "length (so_fitness de') = length (so_fitness de)" and s: "so_sense de' = so_sense de"
    using assms(2) by (auto simp: dominates_def so_sense_def)
  then have ne: "so_fitness de' \<noteq> []" using assms(3) by auto
  note b = best_index_correct[OF ne, of "so_sense de"]
  have "strength (so_sense de) (so_fitness de ! j) \<le> strength (so_sense de) (so_fitness de' ! j)"
    using assms(2,3) by (simp add: dominates_def)
  also have "\<dots> \<le> strength (so_sense de) (so_fitness de' ! best_index (so_sense de) (so_fitness de'))"
    using b l assms(3) by simp
  finally show ?thesis using assms(1) ne s by (simp add: best_fitness_def evo_inv_def)
qed

text \<open>
  C29: the spec's end-to-end scenario. Constructing the evolver of 10 individuals in the
  box [-5,5] x [-5,5] with sense -1 (minimise), F = 0.5 and Cr = 0.9 always succeeds, and
  evolve! with the default strategies and the sum-of-squares evaluator for 200 generations
  always returns, for every generator meeting its contract and every seed; afterwards the
  population still has 10 individuals of dimension 2 inside the box, and the best fitness
  is at most the sum of squares of every initial individual.
\<close>

theorem spec_scenario_sphere:
  assumes "rng_ok r"
  shows "\<exists>de g1 de' g'. StdDE r 10 [(-5, 5), (-5, 5)] \<lparr>F = 1/2, Cr = 9/10\<rparr> (Scalar (-1)) g = Inr (de, g1)
           \<and> evolve r default_kw de sphere 200 g1 = Inr (de', g')
           \<and> nindividuals de' = 10 \<and> ndims de' = 2 \<and> pop_in_bounds de'
           \<and> (\<exists>b. best_fitness de' = Inr b \<and> (\<forall>x \<in> set (pop de). b \<le> sum_list (map (\<lambda>v. v * v) x)))"
proof -
  let ?bnds = "[(-5, 5), (-5, 5)] :: bound list" and ?opt = "\<lparr>F = 1/2, Cr = 9/10\<rparr>"
  obtain de g1 where c: "StdDE r 10 ?bnds ?opt (Scalar (-1)) g = Inr (de, g1)"
    using StdDE_Inr_iff[of r 10 ?bnds ?opt "Scalar (-1)" g] by (auto simp: sense_ok_def)
  have o: "options_ok ?opt" by (simp add: options_ok_def)
  note w = StdDE_wf[OF assms o c]
  have inv: "evo_inv de" by (rule StdDE_evo_inv[OF assms o c])
  have s: "so_sense de = -1" using StdDE_InrD[OF c] by (simp add: so_sense_def)
  obtain fs where fs: "eval_all sphere (pop de) = Inr fs" "length fs = length (pop de)"
    using eval_all_ok[of "bounds de" "pop de" sphere] w evaluator_ok_sphere by (auto simp: pop_in_bounds_def)
  let ?de0 = "de\<lparr>fitness := AVec fs\<rparr>"
  have inv0: "evo_inv ?de0" by (rule evo_inv_set_fitness[OF inv fs(2)])
  obtain de' g' where run: "run_gens r default_kw sphere 200 (?de0, g1) = Inr (de', g')"
    using default_run_gens_progress[OF assms inv0, of sphere 200 g1] w evaluator_ok_sphere by auto
  have ev: "evolve r default_kw de sphere 200 g1 = Inr (de', g')"
    using run fs(1) inv w by (simp add: evolve_def evo_inv_def)
  have i': "evo_inv de' \<and> dominates ?de0 de'" by (rule run_gens_inv[OF assms cx_ok_default inv0 run])
  have best: "\<exists>b. best_fitness de' = Inr b \<and> (\<forall>x \<in> set (pop de). b \<le> sum_list (map (\<lambda>v. v * v) x))"
  proof -
    have ne: "0 < length (so_fitness ?de0)" using fs(2) w by (simp add: so_fitness_def)
    obtain b where b: "best_fitness de' = Inr b" using best_fitness_dominates[OF _ _ ne] i' by blast
    have "b \<le> sum_list (map (\<lambda>v. v * v) (pop de ! j))" if j: "j < length (pop de)" for j
    proof -
      have "sphere (pop de ! j) = Some (fs ! j)" by (rule eval_all_nth[OF fs(1) j])
      moreover have "strength (-1) (fs ! j) \<le> strength (-1) b"
        using best_fitness_dominates[of de' ?de0 j] i' j fs(2) b s by (simp add: so_fitness_def so_sense_def)
      ultimately show ?thesis by (simp add: sphere_def strength_def)
    qed
    then show ?thesis using b by (auto simp: in_set_conv_nth)
  qed
  show ?thesis using c ev i' w best
    by (auto simp: nindividuals_def ndims_def dominates_def evo_inv_def)
qed

lemma spec_scenario_sphere_witness:
  "rng_ok demo_rng \<and>
   (\<exists>de g1 de' g'. StdDE demo_rng 10 [(-5, 5), (-5, 5)] \<lparr>F = 1/2, Cr = 9/10\<rparr> (Scalar (-1)) 0 = Inr (de, g1)
           \<and> evolve demo_rng default_kw de sphere 200 g1 = Inr (de', g')
           \<and> nindividuals de' = 10 \<and> ndims de' = 2 \<and> pop_in_bounds de'
           \<and> (\<exists>b. best_fitness de' = Inr b \<and> (\<forall>x \<in> set (pop de). b \<le> sum_list (map (\<lambda>v. v * v) x))))"
  using spec_scenario_sphere[OF rng_ok_demo_rng, of 0] rng_ok_demo_rng by blast

end
